theory Spec2Isabelle
  imports Main "HOL-Library.AList" "HOL-Library.Sublist" "HOL-Library.Multiset"
begin

section \<open>JavaScript strings\<close>

text \<open>
  A JavaScript string is a sequence of UTF-16 code units; \<open>length\<close>, indexing, \<open>slice\<close>,
  \<open>trim\<close> and the regular expressions of the extension (none has the \<open>u\<close> flag) all
  count code units. A code unit is modelled by its number, an integer from 0 to 65535, so
  that the full-width space U+3000 is a character of the model.
\<close>

type_synonym jsstring = "int list"

definition ascii :: "string \<Rightarrow> jsstring" where
  "ascii s = map of_char s"

text \<open>
  The characters matched by \<open>\s\<close> and stripped by \<open>String.prototype.trim\<close>: the
  WhiteSpace and LineTerminator code points of ECMAScript. U+3000 is one of them, so the
  class \<open>[\s\u3000]\<close> of the extension is this set.
\<close>

definition isSpace :: "int \<Rightarrow> bool" where
  "isSpace c = (c = 9 \<or> c = 10 \<or> c = 11 \<or> c = 12 \<or> c = 13 \<or> c = 32 \<or> c = 160
     \<or> c = 5760 \<or> (8192 \<le> c \<and> c \<le> 8202) \<or> c = 8232 \<or> c = 8233 \<or> c = 8239
     \<or> c = 8287 \<or> c = 12288 \<or> c = 65279)"

definition trim :: "jsstring \<Rightarrow> jsstring" where
  "trim s = rev (dropWhile isSpace (rev (dropWhile isSpace s)))"

text \<open>\<open>s.split(/[\s\u3000]+/)\<close>: the pieces between maximal runs of white space, empty
  pieces at either end included; the empty string gives one empty piece.\<close>

function splitWsFrom :: "jsstring \<Rightarrow> jsstring \<Rightarrow> jsstring list" where
  "splitWsFrom cur [] = [cur]"
| "splitWsFrom cur (c # cs) =
     (if isSpace c then cur # splitWsFrom [] (dropWhile isSpace cs)
      else splitWsFrom (cur @ [c]) cs)"
  by pat_completeness auto
termination
  by (relation "measure (\<lambda>(cur, s). length s)")
     (auto simp: less_Suc_eq_le length_dropWhile_le)

definition splitWs :: "jsstring \<Rightarrow> jsstring list" where
  "splitWs s = splitWsFrom [] s"

text \<open>\<open>s.trim().split(/[\s\u3000]+/).filter(Boolean)\<close>, the token list of a packed cell.\<close>

definition tokens :: "jsstring \<Rightarrow> jsstring list" where
  "tokens s = filter (\<lambda>t. t \<noteq> []) (splitWs (trim s))"

section \<open>The tabular parser: \<open>parseCsv\<close>\<close>

definition quoteCh :: int where "quoteCh = 34"
definition commaCh :: int where "commaCh = 44"
definition crCh :: int where "crCh = 13"
definition lfCh :: int where "lfCh = 10"

type_synonym row = "jsstring list"

record csvState =
  csvRows :: "row list"
  csvRow :: row
  csvField :: jsstring
  inQuotes :: bool

text \<open>
  The \<open>for\<close> loop of \<open>parseCsv\<close>, one call per iteration. \<open>text[i + 1]\<close> past the end is
  \<open>undefined\<close>, which is not the quote character; the doubled quote advances \<open>i\<close> twice.
\<close>

function parseLoop :: "jsstring \<Rightarrow> nat \<Rightarrow> csvState \<Rightarrow> csvState" where
  "parseLoop text i st =
     (if i < length text then
        (let ch = text ! i in
         if inQuotes st then
           (if ch = quoteCh then
              (if i + 1 < length text \<and> text ! (i + 1) = quoteCh
               then parseLoop text (i + 2) (st\<lparr>csvField := csvField st @ [quoteCh]\<rparr>)
               else parseLoop text (i + 1) (st\<lparr>inQuotes := False\<rparr>))
            else parseLoop text (i + 1) (st\<lparr>csvField := csvField st @ [ch]\<rparr>))
         else if ch = quoteCh then parseLoop text (i + 1) (st\<lparr>inQuotes := True\<rparr>)
         else if ch = commaCh then
           parseLoop text (i + 1) (st\<lparr>csvRow := csvRow st @ [csvField st], csvField := []\<rparr>)
         else if ch = crCh then parseLoop text (i + 1) st
         else if ch = lfCh then
           parseLoop text (i + 1)
             (st\<lparr>csvRows := csvRows st @ [csvRow st @ [csvField st]], csvRow := [], csvField := []\<rparr>)
         else parseLoop text (i + 1) (st\<lparr>csvField := csvField st @ [ch]\<rparr>))
      else st)"
  by pat_completeness auto
termination
  by (relation "measure (\<lambda>(text, i, st). length text - i)") auto

definition allEmpty :: "row \<Rightarrow> bool" where
  "allEmpty r = list_all (\<lambda>c. trim c = []) r"

text \<open>The \<open>while\<close> loop that pops trailing rows whose cells are all blank.\<close>

function popEmptyRows :: "row list \<Rightarrow> row list" where
  "popEmptyRows rs =
     (if rs = [] then rs
      else if allEmpty (last rs) then popEmptyRows (butlast rs)
      else rs)"
  by pat_completeness auto
termination
  by (relation "measure length") auto

definition parseCsv :: "jsstring \<Rightarrow> row list" where
  "parseCsv text =
     (let st = parseLoop text 0 \<lparr>csvRows = [], csvRow = [], csvField = [], inQuotes = False\<rparr>
      in popEmptyRows (csvRows st @ [csvRow st @ [csvField st]]))"

text \<open>
  The reference semantics of the parser, by recursion on the text. The flag is the
  quoting mode, the two accumulators are the row and the field under construction.
  With \<open>keepQuotedCR\<close> a carriage return inside a quoted field is literal, as every other
  character there but the quote; without it every carriage return is dropped.
\<close>

fun scanRows :: "bool \<Rightarrow> bool \<Rightarrow> jsstring \<Rightarrow> row \<Rightarrow> jsstring \<Rightarrow> row list" where
  "scanRows k q [] r f = [r @ [f]]"
| "scanRows k True (c # cs) r f =
     (if c = quoteCh then
        (case cs of
           d # ds \<Rightarrow> if d = quoteCh then scanRows k True ds r (f @ [quoteCh])
                     else scanRows k False cs r f
         | [] \<Rightarrow> scanRows k False cs r f)
      else if c = crCh \<and> \<not> k then scanRows k True cs r f
      else scanRows k True cs r (f @ [c]))"
| "scanRows k False (c # cs) r f =
     (if c = quoteCh then scanRows k True cs r f
      else if c = commaCh then scanRows k False cs (r @ [f]) []
      else if c = crCh then scanRows k False cs r f
      else if c = lfCh then (r @ [f]) # scanRows k False cs [] []
      else scanRows k False cs r (f @ [c]))"

definition dropTrailingBlankRows :: "row list \<Rightarrow> row list" where
  "dropTrailingBlankRows rs = rev (dropWhile allEmpty (rev rs))"

definition tabularReference :: "bool \<Rightarrow> jsstring \<Rightarrow> row list" where
  "tabularReference keepQuotedCR text =
     dropTrailingBlankRows (scanRows keepQuotedCR False text [] [])"

section \<open>Plain objects used as string tables\<close>

text \<open>
  The mapping is a plain object \<open>{}\<close> written by \<open>mapping[from] = to\<close>. It is
  modelled by its own enumerable properties, an association list with one entry per key:
  writing an existing key replaces its value in place, writing a new key appends it.
  One key is special in JavaScript: \<open>__proto__\<close> is an accessor inherited from
  \<open>Object.prototype\<close>, whose setter ignores a string, so that the assignment creates no
  property.
\<close>

type_synonym jsobj = "(jsstring \<times> jsstring) list"

definition protoKey :: jsstring where
  "protoKey = ascii ''__proto__''"

definition objSet :: "jsobj \<Rightarrow> jsstring \<Rightarrow> jsstring \<Rightarrow> jsobj" where
  "objSet m k v = (if k = protoKey then m else AList.update k v m)"

definition objGet :: "jsobj \<Rightarrow> jsstring \<Rightarrow> jsstring option" where
  "objGet m k = map_of m k"

section \<open>The mapping builder: \<open>mappingFromRows\<close>\<close>

text \<open>\<open>getCell(cols, index)\<close>; \<open>cols\<close> is absent for \<open>rows?.[0]\<close> of an empty table.\<close>

fun getCell :: "row option \<Rightarrow> nat \<Rightarrow> jsstring" where
  "getCell None index = []"
| "getCell (Some cols) index = (if index \<ge> length cols then [] else cols ! index)"

definition firstRow :: "row list \<Rightarrow> row option" where
  "firstRow rs = (case rs of [] \<Rightarrow> None | r # _ \<Rightarrow> Some r)"

definition isDigit :: "int \<Rightarrow> bool" where
  "isDigit c = (48 \<le> c \<and> c \<le> 57)"

definition isNonNegativeIntegerString :: "jsstring \<Rightarrow> bool" where
  "isNonNegativeIntegerString s = (trim s \<noteq> [] \<and> list_all isDigit (trim s))"

text \<open>
  \<open>Number.parseInt(b, 10)\<close> on a string of decimal digits. JavaScript numbers are
  doubles: the value is exact below \<open>2 ^ 53\<close>, which is where the model is the code.
\<close>

definition parseIntDec :: "jsstring \<Rightarrow> nat" where
  "parseIntDec s = foldl (\<lambda>n c. 10 * n + nat (c - 48)) 0 s"

definition looksLikePackedFirstRow :: "jsstring \<Rightarrow> bool" where
  "looksLikePackedFirstRow firstRowA =
     (let trimmed = trim firstRowA in
      if trimmed = [] then False
      else length (filter (\<lambda>t. t \<noteq> []) (splitWs trimmed)) \<ge> 100)"

text \<open>Strategy 1: the \<open>Map\<close> \<open>plainByIndex\<close> and \<open>maxIndex\<close>.\<close>

record indexTable =
  plainByIndex :: "(nat \<times> jsstring) list"
  maxIndex :: int

definition indexStep :: "indexTable \<Rightarrow> row \<Rightarrow> indexTable" where
  "indexStep tab cols =
     (if length cols < 2 then tab
      else
        (let a = trim (getCell (Some cols) 0); b = trim (getCell (Some cols) 1) in
         if a = [] \<or> b = [] then tab
         else if \<not> isNonNegativeIntegerString b then tab
         else
           (let idx = parseIntDec b in
            tab\<lparr>plainByIndex := AList.update idx a (plainByIndex tab),
                maxIndex := (if int idx > maxIndex tab then int idx else maxIndex tab)\<rparr>)))"

definition collectIndexed :: "row list \<Rightarrow> indexTable" where
  "collectIndexed rs = foldl indexStep \<lparr>plainByIndex = [], maxIndex = - 1\<rparr> rs"

text \<open>Strategy 2, packed cell 1: the loop over \<open>i < Math.min(...)\<close>.\<close>

definition packedDirectStep :: "jsstring list \<Rightarrow> jsstring list \<Rightarrow> jsobj \<Rightarrow> nat \<Rightarrow> jsobj" where
  "packedDirectStep cipherTokens plainTokens mapping i =
     (let from = cipherTokens ! i; to = plainTokens ! i in
      if from = [] \<or> to = [] then mapping else objSet mapping from to)"

definition packedDirect :: "jsstring list \<Rightarrow> jsstring list \<Rightarrow> jsobj \<Rightarrow> jsobj" where
  "packedDirect cipherTokens plainTokens mapping =
     foldl (packedDirectStep cipherTokens plainTokens) mapping
       [0 ..< min (length cipherTokens) (length plainTokens)]"

text \<open>Strategy 2, fallback: token \<open>i\<close> takes \<open>plainByIndex.get(i % base)\<close>.\<close>

definition fallbackStep :: "jsstring list \<Rightarrow> indexTable \<Rightarrow> nat \<Rightarrow> jsobj \<Rightarrow> nat \<Rightarrow> jsobj" where
  "fallbackStep cipherTokens tab base mapping i =
     (let from = cipherTokens ! i in
      case map_of (plainByIndex tab) (i mod base) of
        None \<Rightarrow> mapping
      | Some to \<Rightarrow> if from = [] \<or> to = [] then mapping else objSet mapping from to)"

definition fallbackModulo :: "jsstring list \<Rightarrow> indexTable \<Rightarrow> jsobj \<Rightarrow> jsobj" where
  "fallbackModulo cipherTokens tab mapping =
     (let base = (if maxIndex tab \<ge> 0 then nat (maxIndex tab + 1) else 0) in
      if length (plainByIndex tab) \<ge> 10 \<and> base > 0
      then foldl (fallbackStep cipherTokens tab base) mapping [0 ..< length cipherTokens]
      else mapping)"

text \<open>Strategy 3: one iteration of the loop over the rows, at index \<open>i\<close>.\<close>

definition directStep :: "bool \<Rightarrow> row list \<Rightarrow> jsobj \<Rightarrow> nat \<Rightarrow> jsobj" where
  "directStep packed rs mapping i =
     (let cols = rs ! i in
      if length cols < 2 then mapping
      else if packed \<and> i = 0 then mapping
      else
        (let from = trim (getCell (Some cols) 0); to = trim (getCell (Some cols) 1) in
         if from = [] \<or> to = [] then mapping else objSet mapping from to))"

definition mappingFromRows :: "row list \<Rightarrow> jsobj" where
  "mappingFromRows rs =
     (let tab = collectIndexed rs;
          firstRowA = getCell (firstRow rs) 0;
          packed = looksLikePackedFirstRow firstRowA;
          mapping2 =
            (if packed then
               (let firstRowB = getCell (firstRow rs) 1;
                    cipherTokens = tokens firstRowA;
                    plainTokens = tokens firstRowB;
                    hasPackedDirect = (length plainTokens \<ge> 100)
                in if hasPackedDirect then packedDirect cipherTokens plainTokens []
                   else fallbackModulo cipherTokens tab [])
             else [])
      in foldl (directStep packed rs) mapping2 [0 ..< length rs])"

text \<open>
  Each of the three loops that fill the mapping either skips its iteration or makes one
  assignment \<open>mapping[k] = v\<close>. \<open>stepOf w\<close> is the iteration whose assignment, if
  any, is \<open>w x\<close>; the three functions below give the assignment of each loop.
\<close>

definition stepOf :: "('x \<Rightarrow> (jsstring \<times> jsstring) option) \<Rightarrow> jsobj \<Rightarrow> 'x \<Rightarrow> jsobj" where
  "stepOf w m x = (case w x of None \<Rightarrow> m | Some (k, v) \<Rightarrow> objSet m k v)"

definition packedWrite :: "jsstring list \<Rightarrow> jsstring list \<Rightarrow> nat \<Rightarrow> (jsstring \<times> jsstring) option" where
  "packedWrite cipherTokens plainTokens i =
     (if cipherTokens ! i = [] \<or> plainTokens ! i = [] then None
      else Some (cipherTokens ! i, plainTokens ! i))"

definition fallbackWrite :: "jsstring list \<Rightarrow> indexTable \<Rightarrow> nat \<Rightarrow> nat \<Rightarrow> (jsstring \<times> jsstring) option" where
  "fallbackWrite cipherTokens tab base i =
     (case map_of (plainByIndex tab) (i mod base) of
        None \<Rightarrow> None
      | Some to \<Rightarrow> if cipherTokens ! i = [] \<or> to = [] then None else Some (cipherTokens ! i, to))"

definition directWrite :: "bool \<Rightarrow> row list \<Rightarrow> nat \<Rightarrow> (jsstring \<times> jsstring) option" where
  "directWrite packed rs i =
     (if length (rs ! i) < 2 \<or> (packed \<and> i = 0) then None
      else if trim (getCell (Some (rs ! i)) 0) = [] \<or> trim (getCell (Some (rs ! i)) 1) = []
      then None
      else Some (trim (getCell (Some (rs ! i)) 0), trim (getCell (Some (rs ! i)) 1)))"

section \<open>The override mapping: \<open>sanitizeMappingObject\<close>\<close>

text \<open>
  A value of the stored override object: a string, \<open>null\<close> or \<open>undefined\<close>, or
  any other value, given by what \<open>String(v)\<close> returns for it.
\<close>

datatype jsval = JString jsstring | JNullish | JOther jsstring

text \<open>\<open>String(v ?? "")\<close>\<close>

fun toStr :: "jsval \<Rightarrow> jsstring" where
  "toStr (JString s) = s"
| "toStr JNullish = []"
| "toStr (JOther s) = s"

text \<open>
  What the storage holds under the override key: nothing or a value that is not an
  object, or an object, given by \<open>Object.entries\<close>.
\<close>

datatype stored = NotAnObject | AnObject "(jsstring \<times> jsval) list"

definition sanitizeStep :: "jsobj \<Rightarrow> jsstring \<times> jsval \<Rightarrow> jsobj" where
  "sanitizeStep out e =
     (let key = trim (fst e); val = toStr (snd e) in
      if key = [] then out
      else if length (trim val) = 0 then out
      else objSet out key val)"

fun sanitizeMappingObject :: "stored \<Rightarrow> jsobj" where
  "sanitizeMappingObject NotAnObject = []"
| "sanitizeMappingObject (AnObject es) = foldl sanitizeStep [] es"

definition sanitizeWrite :: "jsstring \<times> jsval \<Rightarrow> (jsstring \<times> jsstring) option" where
  "sanitizeWrite e =
     (if trim (fst e) = [] \<or> trim (toStr (snd e)) = [] then None
      else Some (trim (fst e), toStr (snd e)))"

text \<open>
  \<open>{ ...mapping, ...localOverrides }\<close>: the properties of \<open>mapping\<close>, then those of
  \<open>localOverrides\<close>, each defined on the new object (no setter is called).
\<close>

definition mergeSpread :: "jsobj \<Rightarrow> jsobj \<Rightarrow> jsobj" where
  "mergeSpread mapping localOverrides =
     foldl (\<lambda>acc e. AList.update (fst e) (snd e) acc) mapping localOverrides"

section \<open>The mapping source: \<open>fetchFirstWorkingCsv\<close>\<close>

record response =
  resOk :: bool
  resStatus :: nat
  resStatusText :: jsstring
  resBody :: jsstring

text \<open>
  The messages of the errors the background script creates:
  \<open>HTTP ${res.status} ${res.statusText}\<close>, \<open>Empty CSV\<close>,
  \<open>Non-CSV response (HTML). ...\<close>, \<open>Mapping is empty (...)\<close>; any other message is
  that of an error thrown by \<open>fetch\<close> itself.
\<close>

datatype errMessage =
    HttpMessage nat jsstring
  | EmptyCsv
  | NonCsvHtml
  | MappingIsEmpty
  | OtherMessage jsstring

record jsError =
  message :: errMessage
  errStatus :: "nat option"
  errUrl :: "jsstring option"
  errBodySnippet :: "jsstring option"

text \<open>\<open>await fetch(url)\<close> followed by \<open>await res.text()\<close>: a rejection or a response.\<close>

datatype fetchOutcome = Rejected jsError | Responded response

record fetched =
  fetchedUrl :: jsstring
  fetchedText :: jsstring
  fetchedStatus :: nat

text \<open>
  \<open>toLowerCase\<close> on a code unit. Outside ASCII the lower-case mapping of Unicode
  yields none of the characters of \<open><html\<close> and \<open><!doctype html\<close>, so it is left
  out of the model.
\<close>

definition lowerCh :: "int \<Rightarrow> int" where
  "lowerCh c = (if 65 \<le> c \<and> c \<le> 90 then c + 32 else c)"

fun includesStr :: "jsstring \<Rightarrow> jsstring \<Rightarrow> bool" where
  "includesStr [] needle = (needle = [])"
| "includesStr (c # cs) needle = (prefix needle (c # cs) \<or> includesStr cs needle)"

definition looksLikeHtml :: "jsstring \<Rightarrow> bool" where
  "looksLikeHtml text =
     (let head = map lowerCh (take 2000 text) in
      includesStr head (ascii ''<html'') \<or> includesStr head (ascii ''<!doctype html''))"

definition fetchFirstWorkingCsv :: "jsstring \<Rightarrow> fetchOutcome \<Rightarrow> jsError + fetched" where
  "fetchFirstWorkingCsv url outcome =
     (case outcome of
        Rejected e \<Rightarrow> Inl e
      | Responded res \<Rightarrow>
          (let text = resBody res in
           if \<not> resOk res then
             Inl \<lparr>message = HttpMessage (resStatus res) (resStatusText res),
                  errStatus = Some (resStatus res), errUrl = Some url,
                  errBodySnippet = Some (take 300 text)\<rparr>
           else if text = [] \<or> length (trim text) = 0 then
             Inl \<lparr>message = EmptyCsv, errStatus = Some (resStatus res), errUrl = Some url,
                  errBodySnippet = None\<rparr>
           else if looksLikeHtml text then
             Inl \<lparr>message = NonCsvHtml, errStatus = Some (resStatus res), errUrl = Some url,
                  errBodySnippet = Some (take 300 text)\<rparr>
           else Inr \<lparr>fetchedUrl = url, fetchedText = text, fetchedStatus = resStatus res\<rparr>))"

section \<open>The cache and the refresh protocol: \<open>refreshMapping\<close>\<close>

text \<open>
  The record written under \<open>cipherMapping\<close>. \<open>Success\<close> is \<open>ok: true\<close> with the
  mapping, the source URL and the count; \<open>Failure\<close> is \<open>ok: false\<close> with the error,
  the status, \<open>privateOrAuthRequired\<close>, the body snippet and the candidate URLs. The
  clock readings \<open>fetchedAt\<close> and \<open>durationMs\<close> are left out.
\<close>

datatype cacheRecord =
    Success jsobj jsstring nat
  | Failure errMessage "nat option" bool "jsstring option" "jsstring list"

fun ok :: "cacheRecord \<Rightarrow> bool" where
  "ok (Success m u n) = True"
| "ok (Failure e s p b us) = False"

datatype reply = ReplyOk nat | ReplyError errMessage

definition buildCsvUrls :: "jsstring list" where
  "buildCsvUrls =
     [ascii ''https://docs.google.com/spreadsheets/d/13ctjzzbfV6AHE218r-aHGLBq8j4JL0pLOYw1R_pIiTg/export?format=csv&gid=676289731'']"

text \<open>
  The loop over the candidate URLs; its \<open>catch\<close> drops the error of a candidate and
  goes on to the next one.
\<close>

fun tryUrls :: "(jsstring \<Rightarrow> fetchOutcome) \<Rightarrow> jsstring list \<Rightarrow> (fetched \<times> jsobj) option" where
  "tryUrls fetch [] = None"
| "tryUrls fetch (candidateUrl # urls) =
     (case fetchFirstWorkingCsv candidateUrl (fetch candidateUrl) of
        Inl e \<Rightarrow> tryUrls fetch urls
      | Inr got \<Rightarrow>
          (let m = mappingFromRows (parseCsv (fetchedText got)) in
           if length m = 0 then tryUrls fetch urls else Some (got, m)))"

text \<open>The \<open>catch\<close> block of \<open>refreshMapping\<close>: the failure record of an error.\<close>

definition failureRecord :: "jsError \<Rightarrow> jsstring list \<Rightarrow> cacheRecord" where
  "failureRecord e urls =
     Failure (message e) (errStatus e) (errStatus e = Some 401 \<or> errStatus e = Some 403)
       (errBodySnippet e) urls"

definition mappingIsEmptyError :: jsError where
  "mappingIsEmptyError =
     \<lparr>message = MappingIsEmpty, errStatus = None, errUrl = None, errBodySnippet = None\<rparr>"

text \<open>
  \<open>refreshMapping\<close> of the first background script: the record it stores and what it
  returns.
\<close>

definition refreshMapping :: "(jsstring \<Rightarrow> fetchOutcome) \<Rightarrow> cacheRecord \<times> reply" where
  "refreshMapping fetch =
     (let urls = buildCsvUrls in
      case tryUrls fetch urls of
        None \<Rightarrow> (failureRecord mappingIsEmptyError urls, ReplyError (message mappingIsEmptyError))
      | Some (chosen, mapping) \<Rightarrow>
          (Success mapping (fetchedUrl chosen) (length mapping), ReplyOk (length mapping)))"

text \<open>
  \<open>loadLocalOverrideMapping\<close>: the storage read may throw (\<open>None\<close>), which gives the
  empty object.
\<close>

definition loadLocalOverrideMapping :: "stored option \<Rightarrow> jsobj" where
  "loadLocalOverrideMapping st = (case st of None \<Rightarrow> [] | Some v \<Rightarrow> sanitizeMappingObject v)"

text \<open>\<open>refreshMapping\<close> of the second background script, which merges the overrides.\<close>

definition refreshMappingWithOverrides ::
  "(jsstring \<Rightarrow> fetchOutcome) \<Rightarrow> stored option \<Rightarrow> cacheRecord \<times> reply" where
  "refreshMappingWithOverrides fetch override =
     (let urls = buildCsvUrls in
      case tryUrls fetch urls of
        None \<Rightarrow> (failureRecord mappingIsEmptyError urls, ReplyError (message mappingIsEmptyError))
      | Some (chosen, mapping) \<Rightarrow>
          (let localOverrides = loadLocalOverrideMapping override;
               mergedMapping = mergeSpread mapping localOverrides
           in (Success mergedMapping (fetchedUrl chosen) (length mergedMapping),
               ReplyOk (length mergedMapping))))"

section \<open>The replacer engine: \<open>buildReplacer\<close>\<close>

text \<open>
  \<open>entries.sort((a, b) => b[0].length - a[0].length)\<close>: a stable sort, longer keys
  first.
\<close>

definition sortEntries :: "jsobj \<Rightarrow> jsobj" where
  "sortEntries entries = sort_key (\<lambda>e. - int (length (fst e))) entries"

text \<open>\<open>new Map(entries)\<close> and \<open>map.get(m)\<close>: of two entries with one key the later counts.\<close>

definition mapGet :: "jsobj \<Rightarrow> jsstring \<Rightarrow> jsstring option" where
  "mapGet entries k = map_of (rev entries) k"

text \<open>
  \<open>text.replace(re, (m) => map.get(m) ?? m)\<close> with \<open>re\<close> the global alternation of
  the escaped keys, from the current position on. Every key is escaped, so that it
  matches itself and nothing else. At a position the alternatives are tried in the order
  of \<open>keys\<close> and the first that matches is taken; where none matches the character is
  copied and the search moves on by one. A match of the empty key is replaced and the
  search moves on by one as well.
\<close>

function replaceFrom :: "jsstring list \<Rightarrow> jsobj \<Rightarrow> jsstring \<Rightarrow> jsstring" where
  "replaceFrom keys entries text =
     (case find (\<lambda>k. prefix k text) keys of
        None \<Rightarrow> (case text of [] \<Rightarrow> [] | c # cs \<Rightarrow> c # replaceFrom keys entries cs)
      | Some k \<Rightarrow>
          (let r = (case mapGet entries k of Some v \<Rightarrow> v | None \<Rightarrow> k) in
           if k = [] then
             r @ (case text of [] \<Rightarrow> [] | c # cs \<Rightarrow> c # replaceFrom keys entries cs)
           else r @ replaceFrom keys entries (drop (length k) text)))"
  by pat_completeness auto
termination
proof (relation "measure (\<lambda>(keys, entries, s). length s)")
  fix keys :: "jsstring list" and entries :: jsobj and s k r :: jsstring
  assume f: "find (\<lambda>k. prefix k s) keys = Some k" and k: "k \<noteq> []"
  from f have "prefix k s" by (auto simp: find_Some_iff)
  with k have "s \<noteq> []" by auto
  with k show "((keys, entries, drop (length k) s), (keys, entries, s))
      \<in> measure (\<lambda>(keys, entries, s). length s)"
    by (cases k) auto
qed auto


section \<open>The document\<close>

text \<open>
  The DOM is a store of nodes, each with an identity (a number). Tag names are those of
  HTML elements, in upper case as \<open>tagName\<close> gives them. A \<open>FragmentNode\<close> is a
  \<open>DocumentFragment\<close> or a shadow root; an \<open>OtherNode\<close> is a comment or any other
  node that is neither an element nor a text node.
\<close>

datatype nodeKind = ElementNode | TextNode | FragmentNode | OtherNode

datatype node = Node
  (kind: nodeKind)
  (tagName: string)
  (classList: "string list")
  (okechikaOriginal: "jsstring option")
  (contentEditable: bool)
  (typeAttr: "string option")
  (fieldValue: jsstring)
  (nodeValue: jsstring)
  (childNodes: "nat list")
  (parentNode: "nat option")
  (shadowRoot: "nat option")

text \<open>Assignments to the properties of a node that the content script writes.\<close>

definition setClassList :: "string list \<Rightarrow> node \<Rightarrow> node" where
  "setClassList v x =
     Node (kind x) (tagName x) v (okechikaOriginal x) (contentEditable x) (typeAttr x)
       (fieldValue x) (nodeValue x) (childNodes x) (parentNode x) (shadowRoot x)"

definition setOkechikaOriginal :: "jsstring option \<Rightarrow> node \<Rightarrow> node" where
  "setOkechikaOriginal v x =
     Node (kind x) (tagName x) (classList x) v (contentEditable x) (typeAttr x)
       (fieldValue x) (nodeValue x) (childNodes x) (parentNode x) (shadowRoot x)"

definition setFieldValue :: "jsstring \<Rightarrow> node \<Rightarrow> node" where
  "setFieldValue v x =
     Node (kind x) (tagName x) (classList x) (okechikaOriginal x) (contentEditable x) (typeAttr x)
       v (nodeValue x) (childNodes x) (parentNode x) (shadowRoot x)"

definition setNodeValue :: "jsstring \<Rightarrow> node \<Rightarrow> node" where
  "setNodeValue v x =
     Node (kind x) (tagName x) (classList x) (okechikaOriginal x) (contentEditable x) (typeAttr x)
       (fieldValue x) v (childNodes x) (parentNode x) (shadowRoot x)"

definition setChildNodes :: "nat list \<Rightarrow> node \<Rightarrow> node" where
  "setChildNodes v x =
     Node (kind x) (tagName x) (classList x) (okechikaOriginal x) (contentEditable x) (typeAttr x)
       (fieldValue x) (nodeValue x) v (parentNode x) (shadowRoot x)"

definition setParentNode :: "nat option \<Rightarrow> node \<Rightarrow> node" where
  "setParentNode v x =
     Node (kind x) (tagName x) (classList x) (okechikaOriginal x) (contentEditable x) (typeAttr x)
       (fieldValue x) (nodeValue x) (childNodes x) v (shadowRoot x)"

text \<open>A new element and a new text node, before any property is set.\<close>

definition newElement :: "string \<Rightarrow> node" where
  "newElement tag = Node ElementNode tag [] None False None [] [] [] None None"

definition newText :: "jsstring \<Rightarrow> node" where
  "newText s = Node TextNode [] [] None False None [] s [] None None"

text \<open>
  The page, with the module-level state of the content script: the \<open>WeakMap\<close>
  \<open>ORIGINAL_TEXT_BY_NODE\<close>, the flag \<open>rubySwap\<close>, and whether the style element of
  \<open>ensureDefaultFontStyle\<close> is in the document.
\<close>

datatype document = Document
  (nodes: "(nat \<times> node) list")
  (nextId: nat)
  (body: nat)
  (activeElement: "nat option")
  (fontStyle: bool)
  (rubySwap: bool)
  (originalTextByNode: "(nat \<times> jsstring) list")

definition setNodes :: "(nat \<times> node) list \<Rightarrow> document \<Rightarrow> document" where
  "setNodes v d =
     Document v (nextId d) (body d) (activeElement d) (fontStyle d) (rubySwap d)
       (originalTextByNode d)"

definition setFontStyle :: "bool \<Rightarrow> document \<Rightarrow> document" where
  "setFontStyle v d =
     Document (nodes d) (nextId d) (body d) (activeElement d) v (rubySwap d)
       (originalTextByNode d)"

definition setOriginalTextByNode :: "(nat \<times> jsstring) list \<Rightarrow> document \<Rightarrow> document" where
  "setOriginalTextByNode v d =
     Document (nodes d) (nextId d) (body d) (activeElement d) (fontStyle d) (rubySwap d) v"

definition getNode :: "document \<Rightarrow> nat \<Rightarrow> node option" where
  "getNode d n = map_of (nodes d) n"

definition updNode :: "document \<Rightarrow> nat \<Rightarrow> (node \<Rightarrow> node) \<Rightarrow> document" where
  "updNode d n f =
     (case getNode d n of
        None \<Rightarrow> d
      | Some nd \<Rightarrow> setNodes (AList.update n (f nd) (nodes d)) d)"

definition alloc :: "document \<Rightarrow> node \<Rightarrow> document \<times> nat" where
  "alloc d nd =
     (Document (AList.update (nextId d) nd (nodes d)) (Suc (nextId d)) (body d) (activeElement d)
        (fontStyle d) (rubySwap d) (originalTextByNode d),
      nextId d)"

definition createElement :: "document \<Rightarrow> string \<Rightarrow> document \<times> nat" where
  "createElement d tag = alloc d (newElement tag)"

definition createTextNode :: "document \<Rightarrow> jsstring \<Rightarrow> document \<times> nat" where
  "createTextNode d s = alloc d (newText s)"

text \<open>\<open>node.parentElement\<close>: the parent when it is an element.\<close>

definition parentElement :: "document \<Rightarrow> nat \<Rightarrow> nat option" where
  "parentElement d n =
     (case getNode d n of
        None \<Rightarrow> None
      | Some nd \<Rightarrow>
          (case parentNode nd of
             None \<Rightarrow> None
           | Some p \<Rightarrow>
               (case getNode d p of
                  None \<Rightarrow> None
                | Some pn \<Rightarrow> if kind pn = ElementNode then Some p else None)))"

text \<open>
  \<open>el.closest(selector)\<close>: the first of \<open>el\<close>, its parent element, and so on up,
  that matches. The parent chain of a DOM tree is finite; on a store whose parent
  pointers form a cycle the function has no value, which reads as no match.
\<close>

partial_function (option) closest :: "document \<Rightarrow> (node \<Rightarrow> bool) \<Rightarrow> nat \<Rightarrow> nat option" where
  "closest d sel el =
     (case getNode d el of
        None \<Rightarrow> None
      | Some nd \<Rightarrow>
          if sel nd then Some el
          else (case parentElement d el of None \<Rightarrow> None | Some p \<Rightarrow> closest d sel p))"

declare closest.simps [code]

text \<open>\<open>anc.contains(n)\<close>: \<open>n\<close> is \<open>anc\<close> or one of its descendants.\<close>

partial_function (option) containsNode :: "document \<Rightarrow> nat \<Rightarrow> nat \<Rightarrow> bool option" where
  "containsNode d anc n =
     (if n = anc then Some True
      else
        (case getNode d n of
           None \<Rightarrow> Some False
         | Some nd \<Rightarrow>
             (case parentNode nd of None \<Rightarrow> Some False | Some p \<Rightarrow> containsNode d anc p)))"

declare containsNode.simps [code]

text \<open>
  The nodes below \<open>root\<close> in document order, as a \<open>TreeWalker\<close> on \<open>root\<close> visits
  them (\<open>root\<close> itself is not visited). The recursion is bounded by a depth; callers
  pass \<open>nextId\<close>, which no path of a tree of the store exceeds.
\<close>

fun descendants :: "nat \<Rightarrow> document \<Rightarrow> nat \<Rightarrow> nat list" where
  "descendants 0 d n = []"
| "descendants (Suc depth) d n =
     (case getNode d n of
        None \<Rightarrow> []
      | Some nd \<Rightarrow> concat (map (\<lambda>c. c # descendants depth d c) (childNodes nd)))"

definition isKind :: "document \<Rightarrow> nodeKind \<Rightarrow> nat \<Rightarrow> bool" where
  "isKind d k n = (case getNode d n of None \<Rightarrow> False | Some nd \<Rightarrow> kind nd = k)"

definition textNodesUnder :: "document \<Rightarrow> nat \<Rightarrow> nat list" where
  "textNodesUnder d root = filter (isKind d TextNode) (descendants (nextId d) d root)"

definition elementsUnder :: "document \<Rightarrow> nat \<Rightarrow> nat list" where
  "elementsUnder d root = filter (isKind d ElementNode) (descendants (nextId d) d root)"

subsection \<open>Tree operations\<close>

text \<open>
  \<open>while (el.firstChild) el.removeChild(el.firstChild)\<close>: every child loses its
  parent (\<open>detachChild\<close>), and the element is left without children.
\<close>

definition detachChild :: "document \<Rightarrow> nat \<Rightarrow> document" where
  "detachChild d c = updNode d c (setParentNode None)"

definition removeAllChildren :: "document \<Rightarrow> nat \<Rightarrow> document" where
  "removeAllChildren d el =
     (case getNode d el of
        None \<Rightarrow> d
      | Some nd \<Rightarrow> updNode (foldl detachChild d (childNodes nd)) el (setChildNodes []))"

text \<open>\<open>parent.appendChild(child)\<close> for a node that has no parent yet.\<close>

definition appendChild :: "document \<Rightarrow> nat \<Rightarrow> nat \<Rightarrow> document" where
  "appendChild d parent child =
     updNode (updNode d child (setParentNode (Some parent)))
       parent (\<lambda>x. setChildNodes (childNodes x @ [child]) x)"

text \<open>
  \<open>parent.appendChild(frag)\<close>: the children of the fragment move into the parent. A
  fragment under construction is modelled by the list of its children.
\<close>

definition appendTo :: "nat \<Rightarrow> document \<Rightarrow> nat \<Rightarrow> document" where
  "appendTo parent d child = appendChild d parent child"

definition appendFragment :: "document \<Rightarrow> nat \<Rightarrow> nat list \<Rightarrow> document" where
  "appendFragment d parent frag = foldl (appendTo parent) d frag"

text \<open>\<open>el.textContent = s\<close>: the children go; a non-empty string becomes one text node.\<close>

definition setTextContent :: "document \<Rightarrow> nat \<Rightarrow> jsstring \<Rightarrow> document" where
  "setTextContent d el s =
     (if s = [] then removeAllChildren d el
      else
        (let t = createTextNode (removeAllChildren d el) s
         in appendChild (fst t) el (snd t)))"

text \<open>\<open>parent.replaceChild(newChild, oldChild)\<close> for a child \<open>oldChild\<close> of \<open>parent\<close>.\<close>

definition replaceChild :: "document \<Rightarrow> nat \<Rightarrow> nat \<Rightarrow> nat \<Rightarrow> document" where
  "replaceChild d parent newChild oldChild =
     updNode
       (updNode
          (updNode d parent
             (\<lambda>x. setChildNodes (map (\<lambda>c. if c = oldChild then newChild else c) (childNodes x)) x))
          newChild (setParentNode (Some parent)))
       oldChild (setParentNode None)"

text \<open>\<open>el.replaceWith(newNode)\<close>: nothing happens when \<open>el\<close> has no parent.\<close>

definition replaceWith :: "document \<Rightarrow> nat \<Rightarrow> nat \<Rightarrow> document" where
  "replaceWith d el newNode =
     (case getNode d el of
        None \<Rightarrow> d
      | Some nd \<Rightarrow>
          (case parentNode nd of None \<Rightarrow> d | Some p \<Rightarrow> replaceChild d p newNode el))"

section \<open>The DOM rewriting engine\<close>

definition IGNORED_TAGS :: "string list" where
  "IGNORED_TAGS = [''SCRIPT'', ''STYLE'', ''TEXTAREA'', ''INPUT'', ''NOSCRIPT'']"

definition shouldIgnoreTextNode :: "document \<Rightarrow> nat \<Rightarrow> bool" where
  "shouldIgnoreTextNode d textNode =
     (case parentElement d textNode of
        None \<Rightarrow> True
      | Some parent \<Rightarrow>
          (case getNode d parent of
             None \<Rightarrow> True
           | Some pn \<Rightarrow>
               if tagName pn \<in> set IGNORED_TAGS then True
               else if tagName pn = ''RT'' \<or> tagName pn = ''RP'' then True
               else
                 (case closest d contentEditable parent of
                    None \<Rightarrow> False
                  | Some editable \<Rightarrow>
                      (case activeElement d of
                         None \<Rightarrow> False
                       | Some active \<Rightarrow> containsNode d editable active = Some True))))"

text \<open>
  \<open>ensureDefaultFontStyle\<close> appends its style element to the root element, outside
  \<open>body\<close>, unless \<open>document.getElementById(id)\<close> finds it there already. The
  element holds style rules only, so the model keeps no node for it, only the flag.
\<close>

definition ensureDefaultFontStyle :: "document \<Rightarrow> document" where
  "ensureDefaultFontStyle d = (if fontStyle d then d else setFontStyle True d)"

definition createTranslatedRuby :: "document \<Rightarrow> jsstring \<Rightarrow> jsstring \<Rightarrow> document \<times> nat" where
  "createTranslatedRuby d original translated =
     (let swap = rubySwap d;
          r = createElement d ''RUBY'';
          ruby = snd r;
          b = createElement (fst r) ''SPAN'';
          base = snd b;
          d1 = updNode (fst b) base
                 (setClassList (if swap then [] else [''okechika-translated-base'']));
          d2 = setTextContent d1 base (if swap then original else translated);
          d3 = appendChild d2 ruby base;
          t = createElement d3 ''RT'';
          rt = snd t;
          d4 = updNode (fst t) rt
                 (setClassList (if swap then [''okechika-translated-base''] else []));
          d5 = setTextContent d4 rt (if swap then translated else original);
          d6 = appendChild d5 ruby rt
      in (d6, ruby))"

text \<open>
  \<open>s.split(/(\s+)/)\<close>: the pieces between the runs of white space and, after each
  piece but the last, the run itself.
\<close>

function splitCaptureFrom :: "jsstring \<Rightarrow> jsstring \<Rightarrow> jsstring list" where
  "splitCaptureFrom cur [] = [cur]"
| "splitCaptureFrom cur (c # cs) =
     (if isSpace c
      then cur # (c # takeWhile isSpace cs) # splitCaptureFrom [] (dropWhile isSpace cs)
      else splitCaptureFrom (cur @ [c]) cs)"
  by pat_completeness auto
termination
  by (relation "measure (\<lambda>(cur, s). length s)")
     (auto simp: less_Suc_eq_le length_dropWhile_le)

definition splitCapture :: "jsstring \<Rightarrow> jsstring list" where
  "splitCapture s = splitCaptureFrom [] s"

text \<open>\<open>frag.appendChild(...)\<close> of a node just created, the fragment being the list of its
  children.\<close>

definition fragAppend :: "nat list \<Rightarrow> document \<times> nat \<Rightarrow> document \<times> nat list" where
  "fragAppend frag created = (fst created, frag @ [snd created])"

text \<open>One iteration of the loop of \<open>createSegmentedTranslationFragment\<close>.\<close>

definition segmentStep ::
  "(jsstring \<Rightarrow> jsstring) \<Rightarrow> document \<times> nat list \<Rightarrow> jsstring \<Rightarrow> document \<times> nat list" where
  "segmentStep replaceFn acc part =
     (if part = [] then acc
      else if list_all isSpace part then
        fragAppend (snd acc) (createTextNode (fst acc) part)
      else
        (let translated = replaceFn part in
         if translated = part then fragAppend (snd acc) (createTextNode (fst acc) part)
         else fragAppend (snd acc) (createTranslatedRuby (fst acc) part translated)))"

definition createSegmentedTranslationFragment ::
  "document \<Rightarrow> jsstring \<Rightarrow> (jsstring \<Rightarrow> jsstring) \<Rightarrow> document \<times> nat list" where
  "createSegmentedTranslationFragment d originalText replaceFn =
     foldl (segmentStep replaceFn) (d, []) (splitCapture originalText)"

definition fillTranslatedContainer ::
  "document \<Rightarrow> nat \<Rightarrow> jsstring \<Rightarrow> (jsstring \<Rightarrow> jsstring) \<Rightarrow> document" where
  "fillTranslatedContainer d containerEl originalText replaceFn =
     (let frag =
            createSegmentedTranslationFragment (removeAllChildren d containerEl)
              originalText replaceFn
      in appendFragment (fst frag) containerEl (snd frag))"

definition canWrapWithSpan :: "node \<Rightarrow> bool" where
  "canWrapWithSpan parentEl =
     (let tag = tagName parentEl in
      if tag = ''SCRIPT'' \<or> tag = ''STYLE'' \<or> tag = ''NOSCRIPT'' then False
      else if tag = ''HEAD'' \<or> tag = ''HTML'' then False
      else True)"

text \<open>
  The selector \<open>span.okechika-translated[data-okechika-original],
  ruby.okechika-translated[data-okechika-original]\<close>.
\<close>

definition isWrapper :: "node \<Rightarrow> bool" where
  "isWrapper nd =
     ((tagName nd = ''SPAN'' \<or> tagName nd = ''RUBY'') \<and>
      ''okechika-translated'' \<in> set (classList nd) \<and> okechikaOriginal nd \<noteq> None)"

text \<open>\<open>document.createElement("span")\<close> with the class and the marker attribute.\<close>

definition createContainer :: "document \<Rightarrow> jsstring \<Rightarrow> document \<times> nat" where
  "createContainer d original =
     (let c = createElement d ''SPAN''
      in (updNode (fst c) (snd c)
            (\<lambda>x. setOkechikaOriginal (Some original) (setClassList [''okechika-translated''] x)),
          snd c))"

text \<open>The state of one call of \<open>translateRoot\<close>.\<close>

datatype pass = Pass
  (doc: document)
  (changedNodes: nat)
  (samples: "(jsstring \<times> jsstring) list")
  (processedWrappers: "nat list")

definition countChange :: "pass \<Rightarrow> jsstring \<Rightarrow> jsstring \<Rightarrow> pass" where
  "countChange st original after =
     Pass (doc st) (Suc (changedNodes st))
       (if length (samples st) < 3
        then samples st @ [(take 80 original, take 80 after)]
        else samples st)
       (processedWrappers st)"

text \<open>The branch of the loop for a text node inside a wrapper.\<close>

definition rewriteWrapper :: "(jsstring \<Rightarrow> jsstring) \<Rightarrow> pass \<Rightarrow> nat \<Rightarrow> node \<Rightarrow> jsstring \<Rightarrow> pass" where
  "rewriteWrapper replaceFn st wrapper wn original =
     (if wrapper \<in> set (processedWrappers st) then st
      else
        (let after = replaceFn original;
             st1 =
               (if tagName wn = ''RUBY'' then
                  (let c = createContainer (doc st) original;
                       container = snd c;
                       d1 = ensureDefaultFontStyle (fst c);
                       d2 = fillTranslatedContainer d1 container original replaceFn;
                       d3 = replaceWith d2 wrapper container
                   in Pass d3 (changedNodes st) (samples st)
                        (processedWrappers st @ [container]))
                else
                  (let d1 = ensureDefaultFontStyle (doc st);
                       d2 = fillTranslatedContainer d1 wrapper original replaceFn
                   in Pass d2 (changedNodes st) (samples st)
                        (processedWrappers st @ [wrapper])))
         in countChange st1 original after))"

text \<open>The branch of the loop for a text node outside every wrapper.\<close>

text \<open>The \<open>else\<close> branch: the text node is rewritten in place, its first original kept
  in the side table.\<close>

definition rewriteInPlace :: "document \<Rightarrow> nat \<Rightarrow> jsstring \<Rightarrow> jsstring \<Rightarrow> document" where
  "rewriteInPlace d textNode original after =
     updNode
       (if map_of (originalTextByNode d) textNode = None
        then setOriginalTextByNode (AList.update textNode original (originalTextByNode d)) d
        else d)
       textNode (setNodeValue after)"

text \<open>The \<open>then\<close> branch: a new container takes the place of the text node.\<close>

definition wrapTextNode ::
  "(jsstring \<Rightarrow> jsstring) \<Rightarrow> document \<Rightarrow> nat \<Rightarrow> nat \<Rightarrow> jsstring \<Rightarrow> document" where
  "wrapTextNode replaceFn d parentEl textNode original =
     (let c = createContainer (ensureDefaultFontStyle d) original;
          container = snd c;
          d1 = fillTranslatedContainer (fst c) container original replaceFn
      in replaceChild d1 parentEl container textNode)"

definition rewriteTextNode ::
  "(jsstring \<Rightarrow> jsstring) \<Rightarrow> pass \<Rightarrow> nat \<Rightarrow> jsstring \<Rightarrow> (nat \<times> node) option \<Rightarrow> pass" where
  "rewriteTextNode replaceFn st textNode current parent =
     (let storedOriginal = map_of (originalTextByNode (doc st)) textNode;
          original = (case storedOriginal of None \<Rightarrow> current | Some s \<Rightarrow> s);
          after = replaceFn original
      in if after \<noteq> current then
           (let d1 =
                  (case parent of
                     None \<Rightarrow> rewriteInPlace (doc st) textNode original after
                   | Some p \<Rightarrow>
                       if canWrapWithSpan (snd p)
                       then wrapTextNode replaceFn (doc st) (fst p) textNode original
                       else rewriteInPlace (doc st) textNode original after)
            in countChange (Pass d1 (changedNodes st) (samples st) (processedWrappers st))
                 original after)
         else st)"

text \<open>
  \<open>parent.closest(...)\<close> and the test \<open>wrapper.dataset?.okechikaOriginal !==
  undefined\<close>: the wrapper of a text node, with its node and its stored original.
\<close>

definition wrapperOf :: "document \<Rightarrow> nat option \<Rightarrow> (nat \<times> node \<times> jsstring) option" where
  "wrapperOf d parent =
     (case parent of
        None \<Rightarrow> None
      | Some p \<Rightarrow>
          (case closest d isWrapper p of
             None \<Rightarrow> None
           | Some wrapper \<Rightarrow>
               (case getNode d wrapper of
                  None \<Rightarrow> None
                | Some wn \<Rightarrow>
                    (case okechikaOriginal wn of
                       None \<Rightarrow> None
                     | Some original \<Rightarrow> Some (wrapper, wn, original)))))"

definition withNode :: "document \<Rightarrow> nat option \<Rightarrow> (nat \<times> node) option" where
  "withNode d n =
     (case n of
        None \<Rightarrow> None
      | Some p \<Rightarrow> (case getNode d p of None \<Rightarrow> None | Some pn \<Rightarrow> Some (p, pn)))"

text \<open>The body of the loop \<open>for (const textNode of nodes)\<close> of \<open>translateRoot\<close>.\<close>

definition processTextNode :: "(jsstring \<Rightarrow> jsstring) \<Rightarrow> pass \<Rightarrow> nat \<Rightarrow> pass" where
  "processTextNode replaceFn st textNode =
     (if shouldIgnoreTextNode (doc st) textNode then st
      else
        (case getNode (doc st) textNode of
           None \<Rightarrow> st
         | Some tn \<Rightarrow>
             (let current = nodeValue tn in
              if current = [] \<or> length (trim current) = 0 then st
              else
                (let parent = parentElement (doc st) textNode in
                 case wrapperOf (doc st) parent of
                   Some w \<Rightarrow>
                     rewriteWrapper replaceFn st (fst w) (fst (snd w)) (snd (snd w))
                 | None \<Rightarrow>
                     rewriteTextNode replaceFn st textNode current
                       (withNode (doc st) parent)))))"

definition translateRoot :: "(jsstring \<Rightarrow> jsstring) \<Rightarrow> document \<Rightarrow> nat \<Rightarrow> pass" where
  "translateRoot replaceFn d root =
     foldl (processTextNode replaceFn)
       (Pass d 0 [] []) (textNodesUnder d root)"







section \<open>The mutation tracker\<close>

text \<open>
  The variables of the closure: \<open>scheduled\<close> (a microtask is queued), the set
  \<open>pendingRoots\<close> in insertion order, \<open>isApplying\<close> and \<open>enabled\<close>.
\<close>

datatype tracker = Tracker
  (scheduled: bool)
  (pendingRoots: "nat list")
  (isApplying: bool)
  (enabled: bool)




text \<open>\<open>pendingRoots.add(x)\<close>\<close>

definition addPending :: "tracker \<Rightarrow> nat \<Rightarrow> tracker" where
  "addPending st x =
     (if x \<in> set (pendingRoots st) then st
      else Tracker (scheduled st) (pendingRoots st @ [x]) (isApplying st) (enabled st))"









text \<open>What the page shows below a node: the tree of elements and texts.\<close>

datatype rendered = TextR jsstring | ElementR string "string list" "jsstring option" "rendered list"

fun render :: "nat \<Rightarrow> document \<Rightarrow> nat \<Rightarrow> rendered list" where
  "render 0 d n = []"
| "render (Suc depth) d n =
     (case getNode d n of
        None \<Rightarrow> []
      | Some nd \<Rightarrow>
          if kind nd = TextNode then [TextR (nodeValue nd)]
          else if kind nd = ElementNode then
            [ElementR (tagName nd) (classList nd) (okechikaOriginal nd)
               (concat (map (render depth d) (childNodes nd)))]
          else concat (map (render depth d) (childNodes nd)))"




section \<open>Concrete inputs\<close>

definition duplicateKeyRows :: "row list" where
  "duplicateKeyRows = [[ascii ''a'', ascii ''x''], [ascii ''a'', ascii ''y'']]"

definition spaced :: "jsstring list \<Rightarrow> jsstring" where
  "spaced ts = concat (map (\<lambda>t. t @ [32]) ts)"

definition numbered :: "int \<Rightarrow> nat \<Rightarrow> jsstring list" where
  "numbered base n = map (\<lambda>i. [base + int i]) [0 ..< n]"

text \<open>Row 0 of the specification's example: 150 tokens in each of the two cells.\<close>

definition packed150 :: "row list" where
  "packed150 = [[spaced (numbered 2000 150), spaced (numbered 3000 150)]]"

text \<open>A packed row 0 whose cell 0 repeats one token 100 times.\<close>

definition packedRepeated :: "row list" where
  "packedRepeated = [[spaced (replicate 100 (ascii ''a'')), spaced (numbered 3000 100)]]"

text \<open>Ten indexed rows, kana \<open>i\<close> with the digit \<open>i\<close>, as in the specification's example.\<close>

definition indexedRows :: "row list" where
  "indexedRows = map (\<lambda>i. [[12354 + int i], [48 + int i]]) [0 ..< 10]"

definition fallback100 :: "row list" where
  "fallback100 = [spaced (numbered 2000 100), []] # indexedRows"

definition fallback25 :: "row list" where
  "fallback25 = [spaced (numbered 2000 25), []] # indexedRows"


text \<open>An override object with blanks around its key and its value.\<close>

definition overrideEntries :: "(jsstring \<times> jsval) list" where
  "overrideEntries = [(ascii '' k '', JString (ascii '' v ''))]"

text \<open>
  A response whose body is the table of the rows \<open>k,r\<close> and \<open>z,w\<close>, a fetch that
  answers every URL with it, and the mapping built from that table.
\<close>

definition remoteCsv :: response where
  "remoteCsv = \<lparr>resOk = True, resStatus = 200, resStatusText = [],
     resBody = ascii ''k,r'' @ [lfCh] @ ascii ''z,w''\<rparr>"

definition csvFetch :: "jsstring \<Rightarrow> fetchOutcome" where
  "csvFetch u = Responded remoteCsv"

definition remoteMapping :: jsobj where
  "remoteMapping = [(ascii ''k'', ascii ''r''), (ascii ''z'', ascii ''w'')]"

text \<open>A response with a success status and a sign-in page as its body.\<close>

definition htmlPage :: response where
  "htmlPage = \<lparr>resOk = True, resStatus = 200, resStatusText = [],
     resBody = ascii ''<HTML><body>Sign in</body></HTML>''\<rparr>"

text \<open>
  A page \<open><body><p>N N</p></body>\<close> and the mapping \<open>N \<rightarrow> K\<close>,
  \<open>K \<rightarrow> Q\<close>, a chain as in the comment of the content script.
\<close>

definition chainEntries :: jsobj where
  "chainEntries = [(ascii ''N'', ascii ''K''), (ascii ''K'', ascii ''Q'')]"

definition chainReplace :: "jsstring \<Rightarrow> jsstring" where
  "chainReplace = replaceFrom (map fst (sortEntries chainEntries)) (sortEntries chainEntries)"

definition pageOf :: "jsstring \<Rightarrow> document" where
  "pageOf s =
     Document
       [(0, setChildNodes [1] (newElement ''BODY'')),
        (1, setParentNode (Some 0) (setChildNodes [2] (newElement ''P''))),
        (2, setParentNode (Some 1) (newText s))]
       3 0 None False False []"

text \<open>The first pass over the page \<open>N N\<close> and a second pass after it.\<close>

definition firstPass :: pass where
  "firstPass = translateRoot chainReplace (pageOf (ascii ''N N'')) 0"

definition secondPass :: pass where
  "secondPass = translateRoot chainReplace (doc firstPass) 0"






section \<open>Proofs: the tabular parser\<close>

declare parseLoop.simps [simp del]
declare popEmptyRows.simps [simp del]

lemma parseLoop_end: "\<not> i < length src \<Longrightarrow> parseLoop src i st = st"
  by (subst parseLoop.simps) simp

lemma parseLoop_quoted:
  "i < length src \<Longrightarrow> inQuotes st \<Longrightarrow>
   parseLoop src i st =
     (if src ! i = quoteCh then
        (if i + 1 < length src \<and> src ! (i + 1) = quoteCh
         then parseLoop src (i + 2) (st\<lparr>csvField := csvField st @ [quoteCh]\<rparr>)
         else parseLoop src (i + 1) (st\<lparr>inQuotes := False\<rparr>))
      else parseLoop src (i + 1) (st\<lparr>csvField := csvField st @ [src ! i]\<rparr>))"
  by (subst parseLoop.simps) (simp add: Let_def)

lemma parseLoop_plain:
  "i < length src \<Longrightarrow> \<not> inQuotes st \<Longrightarrow>
   parseLoop src i st =
     (if src ! i = quoteCh then parseLoop src (i + 1) (st\<lparr>inQuotes := True\<rparr>)
      else if src ! i = commaCh then
        parseLoop src (i + 1) (st\<lparr>csvRow := csvRow st @ [csvField st], csvField := []\<rparr>)
      else if src ! i = crCh then parseLoop src (i + 1) st
      else if src ! i = lfCh then
        parseLoop src (i + 1)
          (st\<lparr>csvRows := csvRows st @ [csvRow st @ [csvField st]], csvRow := [], csvField := []\<rparr>)
      else parseLoop src (i + 1) (st\<lparr>csvField := csvField st @ [src ! i]\<rparr>))"
  by (subst parseLoop.simps) (simp add: Let_def)

text \<open>The loop from index \<open>i\<close> is the reference scanner on the rest of the text.\<close>

lemma parseLoop_scan:
  "i \<le> length src \<Longrightarrow>
   csvRows (parseLoop src i st) @ [csvRow (parseLoop src i st) @ [csvField (parseLoop src i st)]] =
     csvRows st @ scanRows True (inQuotes st) (drop i src) (csvRow st) (csvField st)"
proof (induction src i st rule: parseLoop.induct)
  case (1 src i st)
  show ?case
  proof (cases "i < length src")
    case False
    with "1.prems" have "drop i src = []" by simp
    with False show ?thesis by (simp add: parseLoop_end)
  next
    case True
    then have d: "drop i src = src ! i # drop (Suc i) src"
      by (simp add: Cons_nth_drop_Suc)
    show ?thesis
    proof (cases "inQuotes st")
      case q: True
      show ?thesis
      proof (cases "src ! i = quoteCh")
        case isq: True
        show ?thesis
        proof (cases "i + 1 < length src \<and> src ! (i + 1) = quoteCh")
          case dbl: True
          then have d2: "drop (Suc i) src = quoteCh # drop (i + 2) src"
            using Cons_nth_drop_Suc [of "Suc i" src] by simp
          show ?thesis
            using "1.IH"(1) [OF True refl q isq dbl] dbl q isq d d2
            by (simp add: parseLoop_quoted [OF True q])
        next
          case nd: False
          have sc: "scanRows True True (drop i src) (csvRow st) (csvField st) =
                    scanRows True False (drop (Suc i) src) (csvRow st) (csvField st)"
          proof (cases "Suc i < length src")
            case lt: True
            then have "drop (Suc i) src = src ! Suc i # drop (Suc (Suc i)) src"
              by (simp add: Cons_nth_drop_Suc)
            moreover have "src ! Suc i \<noteq> quoteCh" using nd lt by simp
            ultimately show ?thesis using d isq by simp
          next
            case ge: False
            then have "drop (Suc i) src = []" by simp
            then show ?thesis using d isq by simp
          qed
          show ?thesis
            using "1.IH"(2) [OF True refl q isq nd] True nd q isq sc
            by (auto simp add: parseLoop_quoted [OF True q])
        qed
      next
        case nq: False
        show ?thesis
          using "1.IH"(3) [OF True refl q nq] True q nq d
          by (simp add: parseLoop_quoted [OF True q])
      qed
    next
      case nq: False
      show ?thesis
        using "1.IH"(4-8) [OF True refl nq] True nq d
        by (simp add: parseLoop_plain [OF True nq])
    qed
  qed
qed

lemma popEmptyRows_eq: "popEmptyRows rs = dropTrailingBlankRows rs"
proof (induction rs rule: rev_induct)
  case Nil
  show ?case by (subst popEmptyRows.simps) (simp add: dropTrailingBlankRows_def)
next
  case (snoc r rs)
  show ?case
    using snoc
    by (subst popEmptyRows.simps) (simp add: dropTrailingBlankRows_def)
qed

text \<open>
  C6, amended. On every input the parser returns the table of the reference semantics:
  a doubled quote inside a quoted field is one literal quote; inside a quoted field the
  comma, the line feed and also the carriage return are literal; outside quoted fields
  carriage returns are dropped, a comma ends the field and a line feed ends the row; what
  follows the last line feed is the final row; trailing rows whose cells are all blank
  are removed. The parser has no failing branch: both of its loops terminate on every
  input and it returns a table.
\<close>

theorem parseCsv_reference: "parseCsv src = tabularReference True src"
  using parseLoop_scan [of 0 src "\<lparr>csvRows = [], csvRow = [], csvField = [], inQuotes = False\<rparr>"]
  by (simp add: parseCsv_def tabularReference_def popEmptyRows_eq Let_def)

theorem parseCsv_reference_witness:
  "parseCsv (ascii ''a,\"b\"\"c\"'') = tabularReference True (ascii ''a,\"b\"\"c\"'')"
  by (rule parseCsv_reference)

text \<open>
  C6 as stated (every carriage return stripped) fails on a quoted field that holds one:
  the text \<open>"a\rb"\<close> parses to the single cell \<open>a\rb\<close>, carriage return kept.
\<close>

theorem parseCsv_quoted_cr_counterexample:
  "parseCsv [34, 97, 13, 98, 34] = [[[97, 13, 98]]] \<and>
   tabularReference False [34, 97, 13, 98, 34] = [[[97, 98]]]"
  by (simp add: parseCsv_reference tabularReference_def dropTrailingBlankRows_def allEmpty_def
      trim_def isSpace_def quoteCh_def commaCh_def crCh_def lfCh_def)

section \<open>Proofs: the mapping builder\<close>

declare getCell.simps [simp del]

lemma trim_Nil: "trim [] = []"
  by (simp add: trim_def)

lemma objGet_objSet:
  "objGet (objSet m k v) k' = (if k = k' \<and> k \<noteq> protoKey then Some v else objGet m k')"
  by (simp add: objGet_def objSet_def update_conv')

lemma stepOf_apply:
  "stepOf w m x = (case w x of None \<Rightarrow> m | Some (k, v) \<Rightarrow> objSet m k v)"
  by (simp add: stepOf_def)

lemma set_update_subset: "set (AList.update k v m) \<subseteq> insert (k, v) (set m)"
  by (induction m) auto

lemma set_objSet: "set (objSet m k v) \<subseteq> insert (k, v) (set m)"
  using set_update_subset [of k v m] by (auto simp: objSet_def)

lemma stepOf_keep:
  assumes "objGet m k = Some v"
    and "\<forall>x \<in> set xs. \<forall>v'. w x = Some (k, v') \<longrightarrow> v' = v"
  shows "objGet (foldl (stepOf w) m xs) k = Some v"
  using assms
proof (induction xs rule: rev_induct)
  case Nil
  then show ?case by simp
next
  case (snoc x xs)
  define m' where "m' = foldl (stepOf w) m xs"
  have ih: "objGet m' k = Some v" using snoc by (simp add: m'_def)
  have wx: "\<forall>v'. w x = Some (k, v') \<longrightarrow> v' = v" using snoc.prems(2) by simp
  have "objGet (stepOf w m' x) k = Some v"
    using ih wx by (auto simp: stepOf_apply objGet_objSet split: option.splits)
  then show ?case by (simp add: m'_def)
qed

lemma stepOf_last:
  assumes "k \<noteq> protoKey" and "i < length xs" and "w (xs ! i) = Some (k, v)"
    and "\<forall>j. i < j \<and> j < length xs \<longrightarrow> (\<forall>v'. w (xs ! j) = Some (k, v') \<longrightarrow> v' = v)"
  shows "objGet (foldl (stepOf w) m xs) k = Some v"
proof -
  have xs: "xs = take i xs @ xs ! i # drop (Suc i) xs"
    using assms(2) by (simp add: id_take_nth_drop)
  define m' where "m' = foldl (stepOf w) m (take i xs)"
  have "objGet (stepOf w m' (xs ! i)) k = Some v"
    using assms(1,3) by (simp add: stepOf_apply objGet_objSet)
  then have here: "objGet (foldl (stepOf w) m (take i xs @ [xs ! i])) k = Some v"
    by (simp add: m'_def)
  have later: "\<forall>x \<in> set (drop (Suc i) xs). \<forall>v'. w x = Some (k, v') \<longrightarrow> v' = v"
  proof
    fix x assume "x \<in> set (drop (Suc i) xs)"
    then obtain n where n: "n < length (drop (Suc i) xs)" "x = drop (Suc i) xs ! n"
      by (auto simp: in_set_conv_nth)
    then have "x = xs ! (Suc i + n)" "Suc i + n < length xs" by auto
    with assms(4) [rule_format, of "Suc i + n"]
    show "\<forall>v'. w x = Some (k, v') \<longrightarrow> v' = v" by simp
  qed
  have "foldl (stepOf w) m xs =
        foldl (stepOf w) (foldl (stepOf w) m (take i xs @ [xs ! i])) (drop (Suc i) xs)"
    by (subst xs) simp
  then show ?thesis using stepOf_keep [OF here later] by simp
qed

lemma stepOf_entries:
  "set (foldl (stepOf w) m xs) \<subseteq> set m \<union> {e. \<exists>x \<in> set xs. w x = Some e}"
proof (induction xs rule: rev_induct)
  case Nil
  show ?case by simp
next
  case (snoc x xs)
  define m' where "m' = foldl (stepOf w) m xs"
  have ih: "set m' \<subseteq> set m \<union> {e. \<exists>x \<in> set xs. w x = Some e}"
    using snoc by (simp add: m'_def)
  have "set (stepOf w m' x) \<subseteq> set m' \<union> {e. w x = Some e}"
    using set_objSet by (auto simp: stepOf_apply split: option.splits)
  with ih have "set (stepOf w m' x) \<subseteq>
      set m \<union> {e. \<exists>y \<in> set (xs @ [x]). w y = Some e}"
    by auto
  then show ?case by (simp add: m'_def)
qed

lemma directStep_stepOf: "directStep packed rs = stepOf (directWrite packed rs)"
  by (rule ext, rule ext) (simp add: directStep_def stepOf_def directWrite_def Let_def)

lemma packedDirectStep_stepOf:
  "packedDirectStep cipher plain = stepOf (packedWrite cipher plain)"
  by (rule ext, rule ext) (simp add: packedDirectStep_def stepOf_def packedWrite_def Let_def)

lemma fallbackStep_stepOf:
  "fallbackStep cipher tab base = stepOf (fallbackWrite cipher tab base)"
  by (rule ext, rule ext)
    (simp add: fallbackStep_def stepOf_def fallbackWrite_def Let_def split: option.splits)

lemma mappingFromRows_direct:
  "mappingFromRows rs =
     foldl (stepOf (directWrite (looksLikePackedFirstRow (getCell (firstRow rs) 0)) rs))
       (if looksLikePackedFirstRow (getCell (firstRow rs) 0) then
          (if length (tokens (getCell (firstRow rs) 1)) \<ge> 100
           then packedDirect (tokens (getCell (firstRow rs) 0)) (tokens (getCell (firstRow rs) 1)) []
           else fallbackModulo (tokens (getCell (firstRow rs) 0)) (collectIndexed rs) [])
        else [])
       [0 ..< length rs]"
  by (simp add: mappingFromRows_def Let_def directStep_stepOf)

lemma looksLikePacked_iff: "looksLikePackedFirstRow a \<longleftrightarrow> 100 \<le> length (tokens a)"
  by (simp add: looksLikePackedFirstRow_def tokens_def Let_def splitWs_def)

lemma tokens_nonempty: "i < length (tokens s) \<Longrightarrow> tokens s ! i \<noteq> []"
proof -
  assume "i < length (tokens s)"
  then have "tokens s ! i \<in> set (tokens s)" by simp
  then show ?thesis by (simp add: tokens_def)
qed

lemma packedDirect_stepOf:
  "packedDirect cipher plain m =
     foldl (stepOf (packedWrite cipher plain)) m [0 ..< min (length cipher) (length plain)]"
  by (simp add: packedDirect_def packedDirectStep_stepOf)

lemma indexStep_values:
  "\<forall>e \<in> set (plainByIndex tab). snd e \<noteq> [] \<Longrightarrow>
   \<forall>e \<in> set (plainByIndex (indexStep tab cols)). snd e \<noteq> []"
  using set_update_subset [of "parseIntDec (trim (getCell (Some cols) 1))"
      "trim (getCell (Some cols) 0)" "plainByIndex tab"]
  by (auto simp: indexStep_def Let_def)

lemma foldl_indexStep_values:
  "\<forall>e \<in> set (plainByIndex tab). snd e \<noteq> [] \<Longrightarrow>
   \<forall>e \<in> set (plainByIndex (foldl indexStep tab rs)). snd e \<noteq> []"
proof (induction rs arbitrary: tab)
  case Nil
  then show ?case by simp
next
  case (Cons r rs)
  show ?case using Cons.IH [OF indexStep_values [OF Cons.prems]] by simp
qed

lemma collectIndexed_nonempty:
  "map_of (plainByIndex (collectIndexed rs)) n = Some p \<Longrightarrow> p \<noteq> []"
  using foldl_indexStep_values [of "\<lparr>plainByIndex = [], maxIndex = - 1\<rparr>" rs]
  by (auto simp: collectIndexed_def dest!: map_of_SomeD)

lemma packedWrite_Some:
  "packedWrite cipher plain j = Some (k, v) \<Longrightarrow> k = cipher ! j \<and> v = plain ! j"
  by (simp add: packedWrite_def split: if_splits)

lemma directWrite_Some:
  "directWrite packed rs r = Some (k, v) \<Longrightarrow>
   \<not> (packed \<and> r = 0) \<and> k = trim (getCell (Some (rs ! r)) 0) \<and>
   v = trim (getCell (Some (rs ! r)) 1) \<and> v \<noteq> []"
  by (simp add: directWrite_def split: if_splits)

text \<open>
  C3, amended. A row other than a packed row 0 whose cells 0 and 1 are non-empty after
  trimming decides the final entry of its trimmed cell 0, whatever strategies 1 and 2
  wrote for that key, provided no later such row has the same trimmed cell 0 and another
  trimmed cell 1: among the rows, the last writer wins. (The key \<open>__proto__\<close>, which
  a plain object cannot hold as a string entry, is set aside.)
\<close>

theorem direct_row_last_writer_wins:
  assumes i: "i < length rs"
    and notPacked0: "\<not> (looksLikePackedFirstRow (getCell (firstRow rs) 0) \<and> i = 0)"
    and k: "trim (getCell (Some (rs ! i)) 0) = k" "k \<noteq> []" "k \<noteq> protoKey"
    and v: "trim (getCell (Some (rs ! i)) 1) = v" "v \<noteq> []"
    and later: "\<forall>j \<in> {i <..< length rs}.
        trim (getCell (Some (rs ! j)) 0) = k \<and> trim (getCell (Some (rs ! j)) 1) \<noteq> []
        \<longrightarrow> trim (getCell (Some (rs ! j)) 1) = v"
  shows "objGet (mappingFromRows rs) k = Some v"
proof -
  let ?packed = "looksLikePackedFirstRow (getCell (firstRow rs) 0)"
  let ?w = "directWrite ?packed rs"
  have len: "\<not> length (rs ! i) < 2"
    using v by (auto simp: not_less trim_Nil getCell.simps split: if_splits)
  have wi: "?w ([0 ..< length rs] ! i) = Some (k, v)"
    using i notPacked0 k v len by (simp add: directWrite_def)
  have wj: "\<forall>j. i < j \<and> j < length [0 ..< length rs] \<longrightarrow>
      (\<forall>v'. ?w ([0 ..< length rs] ! j) = Some (k, v') \<longrightarrow> v' = v)"
    using later by (auto simp: directWrite_def split: if_splits)
  show ?thesis
    unfolding mappingFromRows_direct
    by (rule stepOf_last [OF k(3) _ wi wj]) (simp add: i)
qed

theorem direct_row_last_writer_wins_witness:
  "objGet (mappingFromRows duplicateKeyRows) (ascii ''a'') = Some (ascii ''y'')"
  by (rule direct_row_last_writer_wins [where i = 1]; code_simp)

text \<open>
  C3 as stated fails on two rows with the same cell 0: the entry is the second row's
  cell 1, not the first row's.
\<close>

theorem direct_row_duplicate_key_counterexample:
  "objGet (mappingFromRows duplicateKeyRows) (trim (getCell (Some (duplicateKeyRows ! 0)) 0))
     \<noteq> Some (trim (getCell (Some (duplicateKeyRows ! 0)) 1))"
  by code_simp

text \<open>
  C4, amended. When cell 0 and cell 1 of row 0 both split into at least 100 tokens, token
  \<open>i\<close> of cell 0 (for \<open>i\<close> below the shorter length) is mapped to token \<open>i\<close> of cell 1,
  provided no later position holds the same cell-0 token with another cell-1 token and no
  direct row (strategy 3) writes that key with another value; and every entry of the
  mapping is such a positional pair or a direct row, so none comes from the modulo
  fallback.
\<close>

theorem packed_pairs_positional:
  assumes cipher: "cipher = tokens (getCell (firstRow rs) 0)"
    and plain: "plain = tokens (getCell (firstRow rs) 1)"
    and packed: "100 \<le> length cipher" "100 \<le> length plain"
  shows "(\<forall>i < min (length cipher) (length plain).
            cipher ! i \<noteq> protoKey \<longrightarrow>
            (\<forall>j \<in> {i <..< min (length cipher) (length plain)}.
               cipher ! j = cipher ! i \<longrightarrow> plain ! j = plain ! i) \<longrightarrow>
            (\<forall>r \<in> {0 <..< length rs}.
               trim (getCell (Some (rs ! r)) 0) = cipher ! i \<and>
               trim (getCell (Some (rs ! r)) 1) \<noteq> [] \<longrightarrow>
               trim (getCell (Some (rs ! r)) 1) = plain ! i) \<longrightarrow>
            objGet (mappingFromRows rs) (cipher ! i) = Some (plain ! i))
       \<and> (\<forall>e \<in> set (mappingFromRows rs).
            (\<exists>i < min (length cipher) (length plain). e = (cipher ! i, plain ! i)) \<or>
            (\<exists>r \<in> {0 <..< length rs}.
               e = (trim (getCell (Some (rs ! r)) 0), trim (getCell (Some (rs ! r)) 1))))"
proof -
  define n where "n = min (length cipher) (length plain)"
  define w2 where "w2 = packedWrite cipher plain"
  define w3 where "w3 = directWrite True rs"
  define m2 where "m2 = foldl (stepOf w2) [] [0 ..< n]"
  have isPacked: "looksLikePackedFirstRow (getCell (firstRow rs) 0)"
    using packed(1) unfolding cipher by (simp add: looksLikePacked_iff)
  have m: "mappingFromRows rs = foldl (stepOf w3) m2 [0 ..< length rs]"
    using isPacked packed(2) unfolding cipher plain m2_def w2_def w3_def n_def
    by (simp add: mappingFromRows_direct packedDirect_stepOf)
  have pairs: "objGet (mappingFromRows rs) (cipher ! i) = Some (plain ! i)"
    if i: "i < n" and np: "cipher ! i \<noteq> protoKey"
      and dup: "\<forall>j \<in> {i <..< n}. cipher ! j = cipher ! i \<longrightarrow> plain ! j = plain ! i"
      and ovr: "\<forall>r \<in> {0 <..< length rs}.
               trim (getCell (Some (rs ! r)) 0) = cipher ! i \<and>
               trim (getCell (Some (rs ! r)) 1) \<noteq> [] \<longrightarrow>
               trim (getCell (Some (rs ! r)) 1) = plain ! i"
    for i
  proof -
    have "i < length cipher" "i < length plain" using i by (simp_all add: n_def)
    then have ne: "cipher ! i \<noteq> []" "plain ! i \<noteq> []"
      unfolding cipher plain by (simp_all add: tokens_nonempty)
    have wi: "w2 ([0 ..< n] ! i) = Some (cipher ! i, plain ! i)"
      using i ne by (simp add: w2_def packedWrite_def)
    have wj: "\<forall>j. i < j \<and> j < length [0 ..< n] \<longrightarrow>
        (\<forall>v'. w2 ([0 ..< n] ! j) = Some (cipher ! i, v') \<longrightarrow> v' = plain ! i)"
    proof (intro allI impI)
      fix j v' assume j: "i < j \<and> j < length [0 ..< n]"
        and w: "w2 ([0 ..< n] ! j) = Some (cipher ! i, v')"
      from j have jn: "j < n" by simp
      with w have "packedWrite cipher plain j = Some (cipher ! i, v')" by (simp add: w2_def)
      from packedWrite_Some [OF this] have "cipher ! j = cipher ! i" "v' = plain ! j" by simp_all
      moreover have "j \<in> {i <..< n}" using j jn by simp
      ultimately show "v' = plain ! i" using dup by blast
    qed
    have two: "objGet m2 (cipher ! i) = Some (plain ! i)"
      unfolding m2_def by (rule stepOf_last [OF np _ wi wj]) (simp add: i)
    have three: "\<forall>x \<in> set [0 ..< length rs].
        \<forall>v'. w3 x = Some (cipher ! i, v') \<longrightarrow> v' = plain ! i"
    proof (intro ballI allI impI)
      fix x v' assume x: "x \<in> set [0 ..< length rs]" and w: "w3 x = Some (cipher ! i, v')"
      from directWrite_Some [OF w [unfolded w3_def]]
      have d: "x \<noteq> 0" "trim (getCell (Some (rs ! x)) 0) = cipher ! i"
        "v' = trim (getCell (Some (rs ! x)) 1)" "trim (getCell (Some (rs ! x)) 1) \<noteq> []"
        by auto
      from x d(1) have "x \<in> {0 <..< length rs}" by simp
      with ovr d show "v' = plain ! i" by blast
    qed
    show ?thesis
      unfolding m by (rule stepOf_keep [OF two three])
  qed
  have entries: "(\<exists>i < n. e = (cipher ! i, plain ! i)) \<or>
            (\<exists>r \<in> {0 <..< length rs}.
               e = (trim (getCell (Some (rs ! r)) 0), trim (getCell (Some (rs ! r)) 1)))"
    if e: "e \<in> set (mappingFromRows rs)" for e
  proof -
    obtain k v where kv: "e = (k, v)" by (cases e)
    from e m stepOf_entries [of w3 m2 "[0 ..< length rs]"]
    have "e \<in> set m2 \<or> (\<exists>x \<in> set [0 ..< length rs]. w3 x = Some e)" by auto
    then show ?thesis
    proof
      assume "e \<in> set m2"
      with stepOf_entries [of w2 "[]" "[0 ..< n]"]
      have "\<exists>x \<in> set [0 ..< n]. w2 x = Some e" unfolding m2_def by auto
      then obtain x where x: "x < n" "packedWrite cipher plain x = Some (k, v)"
        unfolding w2_def kv by auto
      from packedWrite_Some [OF x(2)] x(1) kv show ?thesis by blast
    next
      assume "\<exists>x \<in> set [0 ..< length rs]. w3 x = Some e"
      then obtain x where x: "x < length rs" "directWrite True rs x = Some (k, v)"
        unfolding w3_def kv by auto
      from directWrite_Some [OF x(2)] have d: "x \<noteq> 0"
        "k = trim (getCell (Some (rs ! x)) 0)" "v = trim (getCell (Some (rs ! x)) 1)"
        by auto
      from x(1) d(1) have "x \<in> {0 <..< length rs}" by simp
      with d kv show ?thesis by blast
    qed
  qed
  show ?thesis unfolding n_def [symmetric] using pairs entries by blast
qed

theorem packed_pairs_positional_witness:
  "objGet (mappingFromRows packed150) [2007] = Some [3007]"
proof -
  have c: "numbered 2000 150 = tokens (getCell (firstRow packed150) 0)" by code_simp
  have p: "numbered 3000 150 = tokens (getCell (firstRow packed150) 1)" by code_simp
  have len: "100 \<le> length (numbered 2000 150)" "100 \<le> length (numbered 3000 150)"
    by (simp_all add: numbered_def)
  have i: "7 < min (length (numbered 2000 150)) (length (numbered 3000 150))"
    by (simp add: numbered_def)
  have np: "numbered 2000 150 ! 7 \<noteq> protoKey" by code_simp
  have dup: "\<forall>j \<in> {7 <..< min (length (numbered 2000 150)) (length (numbered 3000 150))}.
      numbered 2000 150 ! j = numbered 2000 150 ! 7 \<longrightarrow>
      numbered 3000 150 ! j = numbered 3000 150 ! 7" by code_simp
  have ovr: "\<forall>r \<in> {0 <..< length packed150}.
      trim (getCell (Some (packed150 ! r)) 0) = numbered 2000 150 ! 7 \<and>
      trim (getCell (Some (packed150 ! r)) 1) \<noteq> [] \<longrightarrow>
      trim (getCell (Some (packed150 ! r)) 1) = numbered 3000 150 ! 7"
    by code_simp
  have v: "numbered 2000 150 ! 7 = [2007]" "numbered 3000 150 ! 7 = [3007]" by code_simp+
  from packed_pairs_positional [OF c p len] i np dup ovr
  have "objGet (mappingFromRows packed150) (numbered 2000 150 ! 7) = Some (numbered 3000 150 ! 7)"
    by blast
  then show ?thesis by (simp only: v)
qed

text \<open>
  C4 as stated fails when a token of cell 0 occurs twice: with 100 times the token
  \<open>a\<close> in cell 0, the token at position 0 is mapped to the last token of cell 1, not
  to the one at position 0.
\<close>

theorem packed_repeated_token_counterexample:
  "100 \<le> length (tokens (getCell (firstRow packedRepeated) 0)) \<and>
   100 \<le> length (tokens (getCell (firstRow packedRepeated) 1)) \<and>
   objGet (mappingFromRows packedRepeated) (tokens (getCell (firstRow packedRepeated) 0) ! 0)
     \<noteq> Some (tokens (getCell (firstRow packedRepeated) 1) ! 0)"
  by code_simp

lemma fallbackWrite_Some:
  "fallbackWrite cipher tab base j = Some (k, v) \<Longrightarrow>
   k = cipher ! j \<and> map_of (plainByIndex tab) (j mod base) = Some v"
  by (simp add: fallbackWrite_def split: option.splits if_splits)

lemma maxIndex_indexStep: "maxIndex tab \<le> maxIndex (indexStep tab cols)"
  by (simp add: indexStep_def Let_def)

lemma plainByIndex_indexStep:
  "plainByIndex (indexStep tab cols) = plainByIndex tab \<or>
   (\<exists>idx a. plainByIndex (indexStep tab cols) = AList.update idx a (plainByIndex tab) \<and>
      int idx \<le> maxIndex (indexStep tab cols))"
proof (cases "length cols < 2 \<or> trim (getCell (Some cols) 0) = [] \<or>
    trim (getCell (Some cols) 1) = [] \<or>
    \<not> isNonNegativeIntegerString (trim (getCell (Some cols) 1))")
  case True
  then have "indexStep tab cols = tab" by (auto simp: indexStep_def Let_def)
  then show ?thesis by simp
next
  case False
  then have "plainByIndex (indexStep tab cols) =
      AList.update (parseIntDec (trim (getCell (Some cols) 1))) (trim (getCell (Some cols) 0))
        (plainByIndex tab)"
    and "int (parseIntDec (trim (getCell (Some cols) 1))) \<le> maxIndex (indexStep tab cols)"
    by (simp_all add: indexStep_def Let_def)
  then show ?thesis by blast
qed

lemma indexStep_bound:
  assumes "\<forall>e \<in> set (plainByIndex tab). int (fst e) \<le> maxIndex tab"
  shows "\<forall>e \<in> set (plainByIndex (indexStep tab cols)). int (fst e) \<le> maxIndex (indexStep tab cols)"
proof
  fix e assume e: "e \<in> set (plainByIndex (indexStep tab cols))"
  from plainByIndex_indexStep [of tab cols]
  show "int (fst e) \<le> maxIndex (indexStep tab cols)"
  proof
    assume "plainByIndex (indexStep tab cols) = plainByIndex tab"
    with e assms have "int (fst e) \<le> maxIndex tab" by simp
    with maxIndex_indexStep [of tab cols] show ?thesis by linarith
  next
    assume "\<exists>idx a. plainByIndex (indexStep tab cols) = AList.update idx a (plainByIndex tab) \<and>
      int idx \<le> maxIndex (indexStep tab cols)"
    then obtain idx a where u: "plainByIndex (indexStep tab cols) = AList.update idx a (plainByIndex tab)"
      and b: "int idx \<le> maxIndex (indexStep tab cols)" by blast
    from e u set_update_subset [of idx a "plainByIndex tab"]
    have "e = (idx, a) \<or> e \<in> set (plainByIndex tab)" by auto
    then show ?thesis
    proof
      assume "e = (idx, a)"
      with b show ?thesis by simp
    next
      assume "e \<in> set (plainByIndex tab)"
      with assms have "int (fst e) \<le> maxIndex tab" by blast
      with maxIndex_indexStep [of tab cols] show ?thesis by linarith
    qed
  qed
qed

lemma foldl_indexStep_bound:
  "\<forall>e \<in> set (plainByIndex tab). int (fst e) \<le> maxIndex tab \<Longrightarrow>
   \<forall>e \<in> set (plainByIndex (foldl indexStep tab rs)). int (fst e) \<le> maxIndex (foldl indexStep tab rs)"
proof (induction rs arbitrary: tab)
  case Nil
  then show ?case by simp
next
  case (Cons r rs)
  show ?case using Cons.IH [OF indexStep_bound [OF Cons.prems]] by simp
qed

lemma collectIndexed_maxIndex:
  "plainByIndex (collectIndexed rs) \<noteq> [] \<Longrightarrow> 0 \<le> maxIndex (collectIndexed rs)"
proof -
  assume ne: "plainByIndex (collectIndexed rs) \<noteq> []"
  then obtain e where e: "e \<in> set (plainByIndex (collectIndexed rs))"
    by (cases "plainByIndex (collectIndexed rs)") auto
  have "\<forall>e \<in> set (plainByIndex (collectIndexed rs)). int (fst e) \<le> maxIndex (collectIndexed rs)"
    unfolding collectIndexed_def by (rule foldl_indexStep_bound) simp
  with e have "int (fst e) \<le> maxIndex (collectIndexed rs)" by blast
  then show ?thesis by linarith
qed

text \<open>
  C5, amended. When cell 0 of row 0 splits into at least 100 tokens (the threshold that
  makes row 0 packed), cell 1 of row 0 into fewer than 100, and strategy 1 collected at
  least 10 indices, token \<open>i\<close> of cell 0 is mapped to the indexed plaintext at index
  \<open>i mod (maxIndex + 1)\<close> when there is one, provided no later position holds the same
  token with another plaintext and no direct row (strategy 3) writes that key with
  another value. The indices are taken below \<open>2 ^ 53\<close>, where \<open>parseInt\<close> is exact.
\<close>

theorem fallback_modulo_index:
  assumes cipher: "cipher = tokens (getCell (firstRow rs) 0)"
    and packed: "100 \<le> length cipher"
    and noB: "length (tokens (getCell (firstRow rs) 1)) < 100"
    and tab: "tab = collectIndexed rs"
    and size: "10 \<le> length (plainByIndex tab)"
    and exact: "maxIndex tab < 2 ^ 53"
    and base: "base = nat (maxIndex tab + 1)"
    and i: "i < length cipher"
    and p: "map_of (plainByIndex tab) (i mod base) = Some p"
    and np: "cipher ! i \<noteq> protoKey"
    and dup: "\<forall>j \<in> {i <..< length cipher}. cipher ! j = cipher ! i \<longrightarrow>
              map_of (plainByIndex tab) (j mod base) = None \<or>
              map_of (plainByIndex tab) (j mod base) = Some p"
    and ovr: "\<forall>r \<in> {0 <..< length rs}.
               trim (getCell (Some (rs ! r)) 0) = cipher ! i \<and>
               trim (getCell (Some (rs ! r)) 1) \<noteq> [] \<longrightarrow>
               trim (getCell (Some (rs ! r)) 1) = p"
  shows "objGet (mappingFromRows rs) (cipher ! i) = Some p"
proof -
  define w2 where "w2 = fallbackWrite cipher tab base"
  define w3 where "w3 = directWrite True rs"
  define m2 where "m2 = foldl (stepOf w2) [] [0 ..< length cipher]"
  have isPacked: "looksLikePackedFirstRow (getCell (firstRow rs) 0)"
    using packed unfolding cipher by (simp add: looksLikePacked_iff)
  have "plainByIndex tab \<noteq> []" using size by auto
  then have "0 \<le> maxIndex tab" unfolding tab by (rule collectIndexed_maxIndex)
  then have basePos: "maxIndex tab \<ge> 0" "0 < base" using base by simp_all
  have fb: "fallbackModulo cipher tab [] = m2"
    using size basePos base
    by (simp add: fallbackModulo_def Let_def fallbackStep_stepOf m2_def w2_def)
  have m: "mappingFromRows rs = foldl (stepOf w3) m2 [0 ..< length rs]"
    using isPacked noB fb unfolding cipher tab w3_def
    by (simp add: mappingFromRows_direct)
  have ne: "cipher ! i \<noteq> []"
    using i unfolding cipher by (simp add: tokens_nonempty)
  have pne: "p \<noteq> []"
    using p unfolding tab by (rule collectIndexed_nonempty)
  have wi: "w2 ([0 ..< length cipher] ! i) = Some (cipher ! i, p)"
    using i ne pne p by (simp add: w2_def fallbackWrite_def)
  have wj: "\<forall>j. i < j \<and> j < length [0 ..< length cipher] \<longrightarrow>
      (\<forall>v'. w2 ([0 ..< length cipher] ! j) = Some (cipher ! i, v') \<longrightarrow> v' = p)"
  proof (intro allI impI)
    fix j v' assume j: "i < j \<and> j < length [0 ..< length cipher]"
      and w: "w2 ([0 ..< length cipher] ! j) = Some (cipher ! i, v')"
    from j have jn: "j < length cipher" by simp
    with w have "fallbackWrite cipher tab base j = Some (cipher ! i, v')" by (simp add: w2_def)
    from fallbackWrite_Some [OF this]
    have "cipher ! j = cipher ! i" "map_of (plainByIndex tab) (j mod base) = Some v'" by simp_all
    moreover have "j \<in> {i <..< length cipher}" using j jn by simp
    ultimately show "v' = p" using dup by force
  qed
  have two: "objGet m2 (cipher ! i) = Some p"
    unfolding m2_def by (rule stepOf_last [OF np _ wi wj]) (simp add: i)
  have three: "\<forall>x \<in> set [0 ..< length rs]. \<forall>v'. w3 x = Some (cipher ! i, v') \<longrightarrow> v' = p"
  proof (intro ballI allI impI)
    fix x v' assume x: "x \<in> set [0 ..< length rs]" and w: "w3 x = Some (cipher ! i, v')"
    from directWrite_Some [OF w [unfolded w3_def]]
    have d: "x \<noteq> 0" "trim (getCell (Some (rs ! x)) 0) = cipher ! i"
      "v' = trim (getCell (Some (rs ! x)) 1)" "trim (getCell (Some (rs ! x)) 1) \<noteq> []"
      by auto
    from x d(1) have "x \<in> {0 <..< length rs}" by simp
    with ovr d show "v' = p" by blast
  qed
  show ?thesis
    unfolding m by (rule stepOf_keep [OF two three])
qed

theorem fallback_modulo_index_witness:
  "objGet (mappingFromRows fallback100) [2025] = Some [12359]"
proof -
  have c: "numbered 2000 100 = tokens (getCell (firstRow fallback100) 0)" by code_simp
  have t: "\<lparr>plainByIndex = map (\<lambda>i. (i, [12354 + int i])) [0 ..< 10], maxIndex = 9\<rparr>
      = collectIndexed fallback100" by code_simp
  have v: "numbered 2000 100 ! 25 = [2025]" by code_simp
  have "objGet (mappingFromRows fallback100) (numbered 2000 100 ! 25) = Some [12359]"
    by (rule fallback_modulo_index [OF c _ _ t _ _ refl]; code_simp)
  then show ?thesis by (simp only: v)
qed

text \<open>
  C5 as stated fails for a cell 0 of 25 tokens: row 0 is packed only from 100 tokens on,
  so the fallback does not run and the tokens are not keys of the mapping.
\<close>

theorem fallback_needs_packed_counterexample:
  "length (tokens (getCell (firstRow fallback25) 0)) = 25 \<and>
   length (tokens (getCell (firstRow fallback25) 1)) < 100 \<and>
   10 \<le> length (plainByIndex (collectIndexed fallback25)) \<and>
   map_of (plainByIndex (collectIndexed fallback25)) (3 mod 10) = Some [12357] \<and>
   objGet (mappingFromRows fallback25) (tokens (getCell (firstRow fallback25) 0) ! 3) = None"
  by code_simp


section \<open>Proofs: the replacer engine\<close>

declare replaceFrom.simps [simp del]














section \<open>Proofs: the override mapping\<close>

lemma sanitizeStep_stepOf: "sanitizeStep = stepOf sanitizeWrite"
  by (rule ext, rule ext) (simp add: sanitizeStep_def stepOf_def sanitizeWrite_def Let_def)

lemma sanitizeWrite_Some:
  "sanitizeWrite e = Some (k, v) \<Longrightarrow>
   k = trim (fst e) \<and> v = toStr (snd e) \<and> k \<noteq> [] \<and> trim v \<noteq> []"
  by (auto simp: sanitizeWrite_def split: if_splits)

lemma map_of_foldl_update:
  "map_of (foldl (\<lambda>acc e. AList.update (fst e) (snd e) acc) m ov) k =
   (case map_of (rev ov) k of Some v \<Rightarrow> Some v | None \<Rightarrow> map_of m k)"
proof (induction ov rule: rev_induct)
  case Nil
  show ?case by simp
next
  case (snoc e ov)
  then show ?case by (simp add: update_conv')
qed

lemma sanitize_distinct_keys: "distinct (map fst m) \<Longrightarrow> distinct (map fst (objSet m k v))"
  by (simp add: objSet_def distinct_update)

lemma foldl_stepOf_distinct:
  "distinct (map fst m) \<Longrightarrow> distinct (map fst (foldl (stepOf w) m xs))"
proof (induction xs rule: rev_induct)
  case Nil
  then show ?case by simp
next
  case (snoc x xs)
  define m' where "m' = foldl (stepOf w) m xs"
  have "distinct (map fst m')" using snoc by (simp add: m'_def)
  then have "distinct (map fst (stepOf w m' x))"
    by (auto simp: stepOf_apply sanitize_distinct_keys split: option.splits)
  then show ?case by (simp add: m'_def)
qed

lemma map_of_rev_distinct:
  assumes "distinct (map fst xs)"
  shows "map_of (rev xs) k = map_of xs k"
proof (cases "map_of xs k")
  case None
  then have "k \<notin> fst ` set (rev xs)" by (simp add: map_of_eq_None_iff)
  then have "map_of (rev xs) k = None" by (rule map_of_eq_None_iff [THEN iffD2])
  with None show ?thesis by simp
next
  case (Some v)
  then have "(k, v) \<in> set (rev xs)" by (auto dest: map_of_SomeD)
  moreover have "distinct (map fst (rev xs))"
    using assms by (simp add: rev_map [symmetric])
  ultimately have "map_of (rev xs) k = Some v" by (rule map_of_is_SomeI [rotated])
  with Some show ?thesis by simp
qed

lemma mergeSpread_get:
  assumes "distinct (map fst ov)"
  shows "objGet (mergeSpread m ov) k = (case objGet ov k of Some v \<Rightarrow> Some v | None \<Rightarrow> objGet m k)"
proof -
  show ?thesis
    unfolding objGet_def mergeSpread_def map_of_foldl_update map_of_rev_distinct [OF assms]
    by (simp split: option.splits)
qed

text \<open>
  C8, amended. For every stored override object, given by its entries: an entry whose key
  and value are both non-empty after trimming, and which no later such entry with the
  same trimmed key and another value follows, is in the sanitized mapping under its
  trimmed key, with its value as stored (not trimmed); every entry of the sanitized
  mapping has a non-empty key and a value that is non-empty after trimming and comes from
  such an entry. When the refresh finds a remote mapping, the record it stores is a
  success whose mapping is the merge of the remote mapping with the sanitized mapping of
  the stored override object: under every key it holds the sanitized override value when
  there is one and the remote value otherwise, so an override entry takes precedence over
  the remote entry for the same key, whatever the remote mapping holds there; the count
  it stores and replies is the size of the merged mapping. When the storage cannot be
  read or holds no object, the stored mapping is the remote one. (The key
  \<open>__proto__\<close> is set aside.)
\<close>

theorem override_sanitized_and_merged:
  "(\<forall>i < length es.
      trim (fst (es ! i)) \<noteq> [] \<and> trim (fst (es ! i)) \<noteq> protoKey \<and>
      trim (toStr (snd (es ! i))) \<noteq> [] \<and>
      (\<forall>j \<in> {i <..< length es}.
         trim (fst (es ! j)) = trim (fst (es ! i)) \<and> trim (toStr (snd (es ! j))) \<noteq> [] \<longrightarrow>
         toStr (snd (es ! j)) = toStr (snd (es ! i))) \<longrightarrow>
      objGet (sanitizeMappingObject (AnObject es)) (trim (fst (es ! i))) = Some (toStr (snd (es ! i))))
   \<and> (\<forall>e \<in> set (sanitizeMappingObject (AnObject es)).
        fst e \<noteq> [] \<and> trim (snd e) \<noteq> [] \<and>
        (\<exists>e0 \<in> set es. fst e = trim (fst e0) \<and> snd e = toStr (snd e0)))
   \<and> (\<forall>chosen. tryUrls fetch buildCsvUrls = Some (chosen, remote) \<longrightarrow>
        (\<exists>merged.
           refreshMappingWithOverrides fetch (Some (AnObject es)) =
             (Success merged (fetchedUrl chosen) (length merged), ReplyOk (length merged)) \<and>
           (\<forall>k. objGet merged k =
              (case objGet (sanitizeMappingObject (AnObject es)) k of
                 Some v \<Rightarrow> Some v
               | None \<Rightarrow> objGet remote k)) \<and>
           (\<forall>i < length es.
              trim (fst (es ! i)) \<noteq> [] \<and> trim (fst (es ! i)) \<noteq> protoKey \<and>
              trim (toStr (snd (es ! i))) \<noteq> [] \<and>
              (\<forall>j \<in> {i <..< length es}.
                 trim (fst (es ! j)) = trim (fst (es ! i)) \<and>
                 trim (toStr (snd (es ! j))) \<noteq> [] \<longrightarrow>
                 toStr (snd (es ! j)) = toStr (snd (es ! i))) \<longrightarrow>
              objGet merged (trim (fst (es ! i))) = Some (toStr (snd (es ! i))))))
   \<and> (\<forall>chosen. tryUrls fetch buildCsvUrls = Some (chosen, remote) \<longrightarrow>
        refreshMappingWithOverrides fetch None =
          (Success remote (fetchedUrl chosen) (length remote), ReplyOk (length remote)) \<and>
        refreshMappingWithOverrides fetch (Some NotAnObject) =
          (Success remote (fetchedUrl chosen) (length remote), ReplyOk (length remote)))"
proof -
  have san: "sanitizeMappingObject (AnObject es) = foldl (stepOf sanitizeWrite) [] es"
    by (simp add: sanitizeStep_stepOf)
  have one: "objGet (sanitizeMappingObject (AnObject es)) (trim (fst (es ! i))) = Some (toStr (snd (es ! i)))"
    if i: "i < length es" and k: "trim (fst (es ! i)) \<noteq> []" "trim (fst (es ! i)) \<noteq> protoKey"
      and v: "trim (toStr (snd (es ! i))) \<noteq> []"
      and later: "\<forall>j \<in> {i <..< length es}.
         trim (fst (es ! j)) = trim (fst (es ! i)) \<and> trim (toStr (snd (es ! j))) \<noteq> [] \<longrightarrow>
         toStr (snd (es ! j)) = toStr (snd (es ! i))"
    for i
  proof -
    have wi: "sanitizeWrite (es ! i) = Some (trim (fst (es ! i)), toStr (snd (es ! i)))"
      using k v by (simp add: sanitizeWrite_def)
    have wj: "\<forall>j. i < j \<and> j < length es \<longrightarrow>
        (\<forall>v'. sanitizeWrite (es ! j) = Some (trim (fst (es ! i)), v') \<longrightarrow> v' = toStr (snd (es ! i)))"
    proof (intro allI impI)
      fix j v' assume j: "i < j \<and> j < length es"
        and w: "sanitizeWrite (es ! j) = Some (trim (fst (es ! i)), v')"
      from sanitizeWrite_Some [OF w]
      have "trim (fst (es ! j)) = trim (fst (es ! i))" "v' = toStr (snd (es ! j))"
        "trim (toStr (snd (es ! j))) \<noteq> []" by auto
      moreover have "j \<in> {i <..< length es}" using j by simp
      ultimately show "v' = toStr (snd (es ! i))" using later by blast
    qed
    show ?thesis unfolding san by (rule stepOf_last [OF k(2) i wi wj])
  qed
  have two: "fst e \<noteq> [] \<and> trim (snd e) \<noteq> [] \<and>
        (\<exists>e0 \<in> set es. fst e = trim (fst e0) \<and> snd e = toStr (snd e0))"
    if e: "e \<in> set (sanitizeMappingObject (AnObject es))" for e
  proof -
    obtain k v where kv: "e = (k, v)" by (cases e)
    from e stepOf_entries [of sanitizeWrite "[]" es]
    obtain e0 where e0: "e0 \<in> set es" "sanitizeWrite e0 = Some (k, v)"
      unfolding san kv by auto
    from sanitizeWrite_Some [OF e0(2)] e0(1) kv show ?thesis by auto
  qed
  have dist: "distinct (map fst (sanitizeMappingObject (AnObject es)))"
    unfolding san by (rule foldl_stepOf_distinct) simp
  define merged where "merged = mergeSpread remote (sanitizeMappingObject (AnObject es))"
  have get: "objGet merged k =
        (case objGet (sanitizeMappingObject (AnObject es)) k of
           Some v \<Rightarrow> Some v
         | None \<Rightarrow> objGet remote k)" for k
    unfolding merged_def by (rule mergeSpread_get [OF dist])
  have over: "objGet merged (trim (fst (es ! i))) = Some (toStr (snd (es ! i)))"
    if "i < length es" "trim (fst (es ! i)) \<noteq> []" "trim (fst (es ! i)) \<noteq> protoKey"
      "trim (toStr (snd (es ! i))) \<noteq> []"
      "\<forall>j \<in> {i <..< length es}.
         trim (fst (es ! j)) = trim (fst (es ! i)) \<and> trim (toStr (snd (es ! j))) \<noteq> [] \<longrightarrow>
         toStr (snd (es ! j)) = toStr (snd (es ! i))"
    for i
    using one [OF that] by (simp add: get)
  have stored: "refreshMappingWithOverrides fetch (Some (AnObject es)) =
      (Success merged (fetchedUrl chosen) (length merged), ReplyOk (length merged))"
    if "tryUrls fetch buildCsvUrls = Some (chosen, remote)" for chosen
    using that
    by (simp add: refreshMappingWithOverrides_def loadLocalOverrideMapping_def Let_def merged_def
        del: sanitizeMappingObject.simps)
  have three: "\<exists>merged.
           refreshMappingWithOverrides fetch (Some (AnObject es)) =
             (Success merged (fetchedUrl chosen) (length merged), ReplyOk (length merged)) \<and>
           (\<forall>k. objGet merged k =
              (case objGet (sanitizeMappingObject (AnObject es)) k of
                 Some v \<Rightarrow> Some v
               | None \<Rightarrow> objGet remote k)) \<and>
           (\<forall>i < length es.
              trim (fst (es ! i)) \<noteq> [] \<and> trim (fst (es ! i)) \<noteq> protoKey \<and>
              trim (toStr (snd (es ! i))) \<noteq> [] \<and>
              (\<forall>j \<in> {i <..< length es}.
                 trim (fst (es ! j)) = trim (fst (es ! i)) \<and>
                 trim (toStr (snd (es ! j))) \<noteq> [] \<longrightarrow>
                 toStr (snd (es ! j)) = toStr (snd (es ! i))) \<longrightarrow>
              objGet merged (trim (fst (es ! i))) = Some (toStr (snd (es ! i))))"
    if t: "tryUrls fetch buildCsvUrls = Some (chosen, remote)" for chosen
  proof (intro exI conjI allI impI)
    show "refreshMappingWithOverrides fetch (Some (AnObject es)) =
      (Success merged (fetchedUrl chosen) (length merged), ReplyOk (length merged))"
      by (rule stored [OF t])
  next
    fix k
    show "objGet merged k =
        (case objGet (sanitizeMappingObject (AnObject es)) k of
           Some v \<Rightarrow> Some v
         | None \<Rightarrow> objGet remote k)" by (rule get)
  next
    fix i
    assume "i < length es"
      and "trim (fst (es ! i)) \<noteq> [] \<and> trim (fst (es ! i)) \<noteq> protoKey \<and>
              trim (toStr (snd (es ! i))) \<noteq> [] \<and>
              (\<forall>j \<in> {i <..< length es}.
                 trim (fst (es ! j)) = trim (fst (es ! i)) \<and>
                 trim (toStr (snd (es ! j))) \<noteq> [] \<longrightarrow>
                 toStr (snd (es ! j)) = toStr (snd (es ! i)))"
    then show "objGet merged (trim (fst (es ! i))) = Some (toStr (snd (es ! i)))"
      using over by blast
  qed
  show ?thesis
  proof (intro conjI allI impI ballI)
    fix i
    assume "i < length es"
      and "trim (fst (es ! i)) \<noteq> [] \<and> trim (fst (es ! i)) \<noteq> protoKey \<and>
        trim (toStr (snd (es ! i))) \<noteq> [] \<and>
        (\<forall>j \<in> {i <..< length es}.
           trim (fst (es ! j)) = trim (fst (es ! i)) \<and> trim (toStr (snd (es ! j))) \<noteq> [] \<longrightarrow>
           toStr (snd (es ! j)) = toStr (snd (es ! i)))"
    then show "objGet (sanitizeMappingObject (AnObject es)) (trim (fst (es ! i))) =
        Some (toStr (snd (es ! i)))"
      using one by blast
  next
    fix e assume "e \<in> set (sanitizeMappingObject (AnObject es))"
    from two [OF this] show "fst e \<noteq> []" "trim (snd e) \<noteq> []"
      "\<exists>e0 \<in> set es. fst e = trim (fst e0) \<and> snd e = toStr (snd e0)" by blast+
  next
    fix chosen assume "tryUrls fetch buildCsvUrls = Some (chosen, remote)"
    from three [OF this] show "\<exists>merged.
           refreshMappingWithOverrides fetch (Some (AnObject es)) =
             (Success merged (fetchedUrl chosen) (length merged), ReplyOk (length merged)) \<and>
           (\<forall>k. objGet merged k =
              (case objGet (sanitizeMappingObject (AnObject es)) k of
                 Some v \<Rightarrow> Some v
               | None \<Rightarrow> objGet remote k)) \<and>
           (\<forall>i < length es.
              trim (fst (es ! i)) \<noteq> [] \<and> trim (fst (es ! i)) \<noteq> protoKey \<and>
              trim (toStr (snd (es ! i))) \<noteq> [] \<and>
              (\<forall>j \<in> {i <..< length es}.
                 trim (fst (es ! j)) = trim (fst (es ! i)) \<and>
                 trim (toStr (snd (es ! j))) \<noteq> [] \<longrightarrow>
                 toStr (snd (es ! j)) = toStr (snd (es ! i))) \<longrightarrow>
              objGet merged (trim (fst (es ! i))) = Some (toStr (snd (es ! i))))" .
  next
    fix chosen assume t: "tryUrls fetch buildCsvUrls = Some (chosen, remote)"
    then show "refreshMappingWithOverrides fetch None =
          (Success remote (fetchedUrl chosen) (length remote), ReplyOk (length remote))"
      by (simp add: refreshMappingWithOverrides_def loadLocalOverrideMapping_def Let_def
          mergeSpread_def)
    from t show "refreshMappingWithOverrides fetch (Some NotAnObject) =
          (Success remote (fetchedUrl chosen) (length remote), ReplyOk (length remote))"
      by (simp add: refreshMappingWithOverrides_def loadLocalOverrideMapping_def Let_def
          mergeSpread_def)
  qed
qed

text \<open>
  The theorem at a concrete refresh: the remote table holds \<open>k\<close> and \<open>z\<close>, the
  stored override object holds \<open>k\<close> (with blanks around key and value). The stored
  mapping has the override value under \<open>k\<close> and the remote value under \<open>z\<close>.
\<close>

theorem override_sanitized_and_merged_witness:
  "\<exists>merged.
     refreshMappingWithOverrides csvFetch (Some (AnObject overrideEntries)) =
       (Success merged (hd buildCsvUrls) (length merged), ReplyOk (length merged)) \<and>
     objGet remoteMapping (ascii ''k'') = Some (ascii ''r'') \<and>
     objGet (sanitizeMappingObject (AnObject overrideEntries)) (ascii ''k'') = Some (ascii '' v '') \<and>
     objGet merged (ascii ''k'') = Some (ascii '' v '') \<and>
     objGet merged (ascii ''z'') = Some (ascii ''w'')"
proof -
  define chosen where
    "chosen = \<lparr>fetchedUrl = hd buildCsvUrls, fetchedText = resBody remoteCsv, fetchedStatus = 200\<rparr>"
  have t: "tryUrls csvFetch buildCsvUrls = Some (chosen, remoteMapping)"
    unfolding chosen_def by code_simp
  have len: "0 < length overrideEntries" by (simp add: overrideEntries_def)
  have cond: "trim (fst (overrideEntries ! 0)) \<noteq> [] \<and>
      trim (fst (overrideEntries ! 0)) \<noteq> protoKey \<and>
      trim (toStr (snd (overrideEntries ! 0))) \<noteq> [] \<and>
      (\<forall>j \<in> {0 <..< length overrideEntries}.
         trim (fst (overrideEntries ! j)) = trim (fst (overrideEntries ! 0)) \<and>
         trim (toStr (snd (overrideEntries ! j))) \<noteq> [] \<longrightarrow>
         toStr (snd (overrideEntries ! j)) = toStr (snd (overrideEntries ! 0)))"
    by code_simp
  have k: "trim (fst (overrideEntries ! 0)) = ascii ''k''"
    and v: "toStr (snd (overrideEntries ! 0)) = ascii '' v ''" by code_simp+
  have r: "objGet remoteMapping (ascii ''k'') = Some (ascii ''r'')"
    and z: "objGet remoteMapping (ascii ''z'') = Some (ascii ''w'')"
    and nz: "objGet (sanitizeMappingObject (AnObject overrideEntries)) (ascii ''z'') = None"
    by code_simp+
  note spec = override_sanitized_and_merged [where es = overrideEntries and fetch = csvFetch
    and remote = remoteMapping]
  from spec len cond
  have s: "objGet (sanitizeMappingObject (AnObject overrideEntries))
      (trim (fst (overrideEntries ! 0))) = Some (toStr (snd (overrideEntries ! 0)))"
    by blast
  from spec t obtain merged where
    m: "refreshMappingWithOverrides csvFetch (Some (AnObject overrideEntries)) =
          (Success merged (fetchedUrl chosen) (length merged), ReplyOk (length merged))"
    and g: "\<forall>k. objGet merged k =
          (case objGet (sanitizeMappingObject (AnObject overrideEntries)) k of
             Some v \<Rightarrow> Some v
           | None \<Rightarrow> objGet remoteMapping k)"
    and o: "\<forall>i < length overrideEntries.
          trim (fst (overrideEntries ! i)) \<noteq> [] \<and> trim (fst (overrideEntries ! i)) \<noteq> protoKey \<and>
          trim (toStr (snd (overrideEntries ! i))) \<noteq> [] \<and>
          (\<forall>j \<in> {i <..< length overrideEntries}.
             trim (fst (overrideEntries ! j)) = trim (fst (overrideEntries ! i)) \<and>
             trim (toStr (snd (overrideEntries ! j))) \<noteq> [] \<longrightarrow>
             toStr (snd (overrideEntries ! j)) = toStr (snd (overrideEntries ! i))) \<longrightarrow>
          objGet merged (trim (fst (overrideEntries ! i))) =
            Some (toStr (snd (overrideEntries ! i)))"
    by blast
  from o len cond have "objGet merged (trim (fst (overrideEntries ! 0))) =
      Some (toStr (snd (overrideEntries ! 0)))" by blast
  then have mk: "objGet merged (ascii ''k'') = Some (ascii '' v '')" by (simp only: k v)
  from g have "objGet merged (ascii ''z'') =
      (case objGet (sanitizeMappingObject (AnObject overrideEntries)) (ascii ''z'') of
         Some v \<Rightarrow> Some v
       | None \<Rightarrow> objGet remoteMapping (ascii ''z''))" by blast
  then have mz: "objGet merged (ascii ''z'') = Some (ascii ''w'')" unfolding nz z by simp
  from s have sk: "objGet (sanitizeMappingObject (AnObject overrideEntries)) (ascii ''k'') =
      Some (ascii '' v '')" by (simp only: k v)
  from m have "refreshMappingWithOverrides csvFetch (Some (AnObject overrideEntries)) =
       (Success merged (hd buildCsvUrls) (length merged), ReplyOk (length merged))"
    by (simp add: chosen_def)
  with r sk mk mz show ?thesis by blast
qed

text \<open>
  C8 as stated (values stored trimmed) fails on a value with surrounding blanks: it is
  stored with them.
\<close>

theorem override_value_untrimmed_counterexample:
  "objGet (sanitizeMappingObject (AnObject overrideEntries)) (ascii ''k'') = Some (ascii '' v '') \<and>
   trim (ascii '' v '') \<noteq> ascii '' v ''"
  by code_simp

section \<open>Proofs: the mapping source and the refresh protocol\<close>

lemma tryUrls_all_fail:
  "\<forall>u \<in> set urls. \<exists>e. fetchFirstWorkingCsv u (fetch u) = Inl e \<Longrightarrow> tryUrls fetch urls = None"
  by (induction urls) auto

text \<open>
  C7, amended. For every fetched response with a success status: an empty or
  all-whitespace body fails as \<open>Empty CSV\<close>, a body that is not blank and whose first
  2000 characters hold \<open><html\<close> or \<open><!doctype html\<close> in any case fails as
  \<open>Non-CSV response (HTML)\<close>; the two failures are distinct; and with either response
  the refresh (of both background scripts) stores a failure record, \<open>ok: false\<close>.
\<close>

theorem fetch_failures_classified:
  assumes okr: "resOk res"
    and all: "\<forall>u \<in> set buildCsvUrls. fetch u = Responded res"
  shows "(trim (resBody res) = [] \<longrightarrow>
           (\<exists>e. fetchFirstWorkingCsv url (Responded res) = Inl e \<and> message e = EmptyCsv))
       \<and> (trim (resBody res) \<noteq> [] \<and> looksLikeHtml (resBody res) \<longrightarrow>
           (\<exists>e. fetchFirstWorkingCsv url (Responded res) = Inl e \<and> message e = NonCsvHtml))
       \<and> EmptyCsv \<noteq> NonCsvHtml
       \<and> (trim (resBody res) = [] \<or> looksLikeHtml (resBody res) \<longrightarrow>
           \<not> ok (fst (refreshMapping fetch)) \<and>
           \<not> ok (fst (refreshMappingWithOverrides fetch override)))"
proof -
  have empty: "\<exists>e. fetchFirstWorkingCsv u (Responded res) = Inl e \<and> message e = EmptyCsv"
    if "trim (resBody res) = []" for u
    using okr that by (simp add: fetchFirstWorkingCsv_def Let_def)
  have html: "\<exists>e. fetchFirstWorkingCsv u (Responded res) = Inl e \<and> message e = NonCsvHtml"
    if "trim (resBody res) \<noteq> []" "looksLikeHtml (resBody res)" for u
    using okr that by (auto simp: fetchFirstWorkingCsv_def Let_def trim_Nil)
  have fails: "tryUrls fetch buildCsvUrls = None"
    if bad: "trim (resBody res) = [] \<or> looksLikeHtml (resBody res)"
  proof (rule tryUrls_all_fail, rule ballI)
    fix u assume "u \<in> set buildCsvUrls"
    with all have f: "fetch u = Responded res" by blast
    show "\<exists>e. fetchFirstWorkingCsv u (fetch u) = Inl e"
    proof (cases "trim (resBody res) = []")
      case True
      with empty [of u] f show ?thesis by auto
    next
      case False
      with bad html [of u] f show ?thesis by auto
    qed
  qed
  have stored: "\<not> ok (fst (refreshMapping fetch)) \<and>
           \<not> ok (fst (refreshMappingWithOverrides fetch override))"
    if "trim (resBody res) = [] \<or> looksLikeHtml (resBody res)"
    using fails [OF that]
    by (simp add: refreshMapping_def refreshMappingWithOverrides_def failureRecord_def)
  show ?thesis using empty html stored by blast
qed

theorem fetch_failures_classified_witness:
  "(\<exists>e. fetchFirstWorkingCsv [] (Responded htmlPage) = Inl e \<and> message e = NonCsvHtml) \<and>
   \<not> ok (fst (refreshMapping (\<lambda>u. Responded htmlPage)))"
proof -
  have o: "resOk htmlPage" by (simp add: htmlPage_def)
  have b: "trim (resBody htmlPage) \<noteq> [] \<and> looksLikeHtml (resBody htmlPage)" by code_simp
  from fetch_failures_classified [OF o, of "\<lambda>u. Responded htmlPage" "[]"] b
  show ?thesis by blast
qed

text \<open>
  C7 as stated (every fetched response) fails on a response whose status is not a
  success: with an empty body and with an HTML body alike the failure is the HTTP error.
\<close>

theorem fetch_http_error_first_counterexample:
  "fetchFirstWorkingCsv [] (Responded (htmlPage\<lparr>resOk := False, resStatus := 404, resBody := []\<rparr>)) =
     Inl \<lparr>message = HttpMessage 404 [], errStatus = Some 404, errUrl = Some [],
          errBodySnippet = Some []\<rparr> \<and>
   fetchFirstWorkingCsv [] (Responded (htmlPage\<lparr>resOk := False, resStatus := 404\<rparr>)) =
     Inl \<lparr>message = HttpMessage 404 [], errStatus = Some 404, errUrl = Some [],
          errBodySnippet = Some (ascii ''<HTML><body>Sign in</body></HTML>'')\<rparr>"
  by (simp add: fetchFirstWorkingCsv_def htmlPage_def Let_def ascii_def)

section \<open>Proofs: the DOM rewriting engine\<close>

text \<open>
  The equations by which the engine runs on a concrete page. A numeral depth unfolds the
  walk by one level.
\<close>

lemmas dom_eval = setClassList_def setOkechikaOriginal_def setFieldValue_def setNodeValue_def
  setChildNodes_def setParentNode_def newElement_def newText_def setNodes_def setFontStyle_def
  setOriginalTextByNode_def getNode_def updNode_def alloc_def createElement_def
  createTextNode_def parentElement_def isKind_def textNodesUnder_def elementsUnder_def
  detachChild_def removeAllChildren_def appendChild_def appendTo_def appendFragment_def
  setTextContent_def replaceChild_def replaceWith_def IGNORED_TAGS_def
  shouldIgnoreTextNode_def ensureDefaultFontStyle_def createTranslatedRuby_def
  splitCapture_def fragAppend_def segmentStep_def createSegmentedTranslationFragment_def
  fillTranslatedContainer_def canWrapWithSpan_def isWrapper_def createContainer_def
  countChange_def rewriteWrapper_def rewriteInPlace_def wrapTextNode_def rewriteTextNode_def
  wrapperOf_def withNode_def processTextNode_def translateRoot_def closest.simps
  containsNode.simps isSpace_def trim_def ascii_def pageOf_def Let_def

lemma descendants_numeral:
  "descendants (numeral k) d n =
     (case getNode d n of
        None \<Rightarrow> []
      | Some nd \<Rightarrow> concat (map (\<lambda>c. c # descendants (pred_numeral k) d c) (childNodes nd)))"
  by (simp add: numeral_eq_Suc)

lemma render_numeral:
  "render (numeral k) d n =
     (case getNode d n of
        None \<Rightarrow> []
      | Some nd \<Rightarrow>
          if kind nd = TextNode then [TextR (nodeValue nd)]
          else if kind nd = ElementNode then
            [ElementR (tagName nd) (classList nd) (okechikaOriginal nd)
               (concat (map (render (pred_numeral k) d) (childNodes nd)))]
          else concat (map (render (pred_numeral k) d) (childNodes nd)))"
  by (simp add: numeral_eq_Suc)



lemma chainReplace_eval:
  "chainReplace [78, 32, 78] = [75, 32, 75]" "chainReplace [78] = [75]" "chainReplace [75] = [81]"
  by code_simp+








text \<open>The page \<open>N N\<close> after its first pass with the chain mapping.\<close>

lemma firstPass_eval:
  "firstPass =
   Pass
    (Document
      [(0, Node ElementNode ''BODY'' [] None False None [] [] [1] None None),
       (1, Node ElementNode ''P'' [] None False None [] [] [3] (Some 0) None),
       (2, Node TextNode [] [] None False None [] [78, 32, 78] [] None None),
       (3, Node ElementNode ''SPAN'' [''okechika-translated'']
            (Some [78, 32, 78]) False None [] [] [4, 9, 10] (Some 1) None),
       (4, Node ElementNode ''RUBY'' [] None False None [] [] [5, 7] (Some 3) None),
       (5, Node ElementNode ''SPAN'' [''okechika-translated-base''] None False
            None [] [] [6] (Some 4) None),
       (6, Node TextNode [] [] None False None [] [75] [] (Some 5) None),
       (7, Node ElementNode ''RT'' [] None False None [] [] [8] (Some 4) None),
       (8, Node TextNode [] [] None False None [] [78] [] (Some 7) None),
       (9, Node TextNode [] [] None False None [] [32] [] (Some 3) None),
       (10, Node ElementNode ''RUBY'' [] None False None [] [] [11, 13] (Some 3) None),
       (11, Node ElementNode ''SPAN'' [''okechika-translated-base''] None False
             None [] [] [12] (Some 10) None),
       (12, Node TextNode [] [] None False None [] [75] [] (Some 11) None),
       (13, Node ElementNode ''RT'' [] None False None [] [] [14] (Some 10) None),
       (14, Node TextNode [] [] None False None [] [78] [] (Some 13) None)]
      15 0 None True False [])
    1 [([78, 32, 78], [75, 32, 75])] []"
  unfolding firstPass_def
  by (simp add: dom_eval descendants_numeral chainReplace_eval split del: if_split
      cong: let_weak_cong if_weak_cong option.case_cong_weak)

text \<open>The same page after a second pass.\<close>

lemma secondPass_eval:
  "secondPass =
   Pass
    (Document
      [(0, Node ElementNode ''BODY'' [] None False None [] [] [1] None None),
       (1, Node ElementNode ''P'' [] None False None [] [] [3] (Some 0) None),
       (2, Node TextNode [] [] None False None [] [78, 32, 78] [] None None),
       (3, Node ElementNode ''SPAN'' [''okechika-translated'']
            (Some [78, 32, 78]) False None [] [] [15, 20, 21] (Some 1) None),
       (4, Node ElementNode ''RUBY'' [] None False None [] [] [5, 7] None None),
       (5, Node ElementNode ''SPAN'' [''okechika-translated-base''] None False
            None [] [] [6] (Some 4) None),
       (6, Node TextNode [] [] None False None [] [75] [] (Some 5) None),
       (7, Node ElementNode ''RT'' [] None False None [] [] [8] (Some 4) None),
       (8, Node TextNode [] [] None False None [] [78] [] (Some 7) None),
       (9, Node TextNode [] [] None False None [] [32] [] None None),
       (10, Node ElementNode ''RUBY'' [] None False None [] [] [11, 13] None None),
       (11, Node ElementNode ''SPAN'' [''okechika-translated-base''] None False
             None [] [] [26] (Some 10) None),
       (12, Node TextNode [] [] None False None [] [75] [] None None),
       (13, Node ElementNode ''RT'' [] None False None [] [] [14] (Some 10) None),
       (14, Node TextNode [] [] None False None [] [78] [] (Some 13) None),
       (15, Node ElementNode ''RUBY'' [] None False None [] [] [16, 18] (Some 3) None),
       (16, Node ElementNode ''SPAN'' [''okechika-translated-base''] None False
             None [] [] [17] (Some 15) None),
       (17, Node TextNode [] [] None False None [] [75] [] (Some 16) None),
       (18, Node ElementNode ''RT'' [] None False None [] [] [19] (Some 15) None),
       (19, Node TextNode [] [] None False None [] [78] [] (Some 18) None),
       (20, Node TextNode [] [] None False None [] [32] [] (Some 3) None),
       (21, Node ElementNode ''RUBY'' [] None False None [] [] [22, 24] (Some 3) None),
       (22, Node ElementNode ''SPAN'' [''okechika-translated-base''] None False
             None [] [] [23] (Some 21) None),
       (23, Node TextNode [] [] None False None [] [75] [] (Some 22) None),
       (24, Node ElementNode ''RT'' [] None False None [] [] [25] (Some 21) None),
       (25, Node TextNode [] [] None False None [] [78] [] (Some 24) None),
       (26, Node ElementNode ''SPAN'' [''okechika-translated''] (Some [75]) False
             None [] [] [27] (Some 11) None),
       (27, Node ElementNode ''RUBY'' [] None False None [] [] [28, 30] (Some 26) None),
       (28, Node ElementNode ''SPAN'' [''okechika-translated-base''] None False
             None [] [] [29] (Some 27) None),
       (29, Node TextNode [] [] None False None [] [81] [] (Some 28) None),
       (30, Node ElementNode ''RT'' [] None False None [] [] [31] (Some 27) None),
       (31, Node TextNode [] [] None False None [] [75] [] (Some 30) None)]
      32 0 None True False [])
    2 [([78, 32, 78], [75, 32, 75]), ([75], [81])] [3]"
  unfolding secondPass_def firstPass_eval
  by (simp add: dom_eval descendants_numeral chainReplace_eval split del: if_split
      cong: let_weak_cong if_weak_cong option.case_cong_weak)

text \<open>
  C1. The claim holds of what the page shows, and the code departs from its last part.
  On the page \<open>N N\<close> with the chain mapping \<open>N \<rightarrow> K\<close>, \<open>K \<rightarrow> Q\<close>, the first pass
  makes one wrapper with the original \<open>N N\<close>, showing \<open>K K\<close>. A second pass over
  the body walks the text nodes 6, 8, 9, 12 and 14 collected before its loop. At node 6
  it rebuilds the wrapper from the stored original, which takes the old children out of
  the document. Node 12, the translated text \<open>K\<close> of the second word, is then outside
  every wrapper, so the pass takes its current text as the original and sends it through
  the replacer: the second sample is \<open>K\<close> becoming \<open>Q\<close>, two changes are
  counted, and the text node is replaced, in the subtree taken out of the document, by a
  wrapper whose stored original is the translated text \<open>K\<close>. The page shows the same
  after both passes.
\<close>

theorem stale_nodes_reach_replacer:
  "changedNodes firstPass = 1 \<and>
   samples firstPass = [(ascii ''N N'', ascii ''K K'')] \<and>
   textNodesUnder (doc firstPass) 0 = [6, 8, 9, 12, 14] \<and>
   map_option nodeValue (getNode (doc firstPass) 12) = Some (ascii ''K'') \<and>
   changedNodes secondPass = 2 \<and>
   samples secondPass = [(ascii ''N N'', ascii ''K K''), (ascii ''K'', ascii ''Q'')] \<and>
   map_option okechikaOriginal (getNode (doc secondPass) 26) = Some (Some (ascii ''K'')) \<and>
   render 6 (doc secondPass) 0 = render 6 (doc firstPass) 0"
  unfolding secondPass_eval firstPass_eval
  by (simp add: dom_eval descendants_numeral render_numeral split del: if_split
      cong: let_weak_cong if_weak_cong option.case_cong_weak)

section \<open>Proofs: the mutation tracker\<close>

lemma addPending_other [simp]:
  "scheduled (addPending st x) = scheduled st"
  "isApplying (addPending st x) = isApplying st"
  "enabled (addPending st x) = enabled st"
  by (simp_all add: addPending_def)
















end
